theory Spec2Isabelle
  imports Main "HOL-Library.Sublist" "HOL-Library.Multiset"
begin

section \<open>The pipeline step builder of woodpecker (pipeline/stepBuilder.go)\<close>

text \<open>
  A shallow embedding of \<^verbatim>\<open>pipeline/stepBuilder.go\<close>. Go strings are byte strings
  and are modelled as \<^typ>\<open>string\<close>; Go maps \<^verbatim>\<open>map[string]string\<close> are partial
  functions; slices are lists; a Go \<^verbatim>\<open>(value, error)\<close> result is a sum with the
  error on the left. \<^verbatim>\<open>int\<close> counters are modelled as \<^typ>\<open>int\<close>: the only counter
  of the file, \<^verbatim>\<open>pidSequence\<close>, is always one more than the length of a slice held
  in memory, so it never reaches the 64-bit bound.
\<close>

subsection \<open>Go standard library: strings and path/filepath (Unix)\<close>

text \<open>\<^verbatim>\<open>strings.HasSuffix(s, suffix)\<close>:
  \<^verbatim>\<open>len(s) >= len(suffix) && s[len(s)-len(suffix):] == suffix\<close>.\<close>

definition HasSuffix :: "string \<Rightarrow> string \<Rightarrow> bool" where
  "HasSuffix s suf \<longleftrightarrow>
     length suf \<le> length s \<and> drop (length s - length suf) s = suf"

text \<open>\<^verbatim>\<open>strings.HasPrefix(s, prefix)\<close>:
  \<^verbatim>\<open>len(s) >= len(prefix) && s[0:len(prefix)] == prefix\<close>.\<close>

definition HasPrefix :: "string \<Rightarrow> string \<Rightarrow> bool" where
  "HasPrefix s pre \<longleftrightarrow> length pre \<le> length s \<and> take (length pre) s = pre"

text \<open>\<^verbatim>\<open>strings.TrimSuffix\<close>: the suffix is removed once, when present.\<close>

definition TrimSuffix :: "string \<Rightarrow> string \<Rightarrow> string" where
  "TrimSuffix s suf =
     (if HasSuffix s suf then take (length s - length suf) s else s)"

text \<open>\<^verbatim>\<open>strings.TrimPrefix\<close>: the prefix is removed once, when present.\<close>

definition TrimPrefix :: "string \<Rightarrow> string \<Rightarrow> string" where
  "TrimPrefix s pre = (if HasPrefix s pre then drop (length pre) s else s)"

definition IsPathSeparator :: "char \<Rightarrow> bool" where
  "IsPathSeparator c \<longleftrightarrow> c = CHR ''/''"

text \<open>
  The first loop of \<^verbatim>\<open>filepath.Base\<close>:
  \<^verbatim>\<open>for len(path) > 0 && os.IsPathSeparator(path[len(path)-1]) { path = path[0 : len(path)-1] }\<close>.
\<close>

function stripTrailingSeparators :: "string \<Rightarrow> string" where
  "stripTrailingSeparators path =
     (if 0 < length path \<and> IsPathSeparator (path ! (length path - 1))
      then stripTrailingSeparators (take (length path - 1) path)
      else path)"
  by pat_completeness auto
termination
  by (relation "measure length") auto

declare stripTrailingSeparators.simps [simp del]

text \<open>
  The second loop of \<^verbatim>\<open>filepath.Base\<close> scans an index \<open>i\<close> down from the last byte
  while \<^verbatim>\<open>i >= 0 && !os.IsPathSeparator(path[i])\<close>. The index is kept as \<open>i + 1\<close> in
  a \<^typ>\<open>nat\<close>, so that \<open>0\<close> stands for \<^verbatim>\<open>i = -1\<close>; the function returns \<open>i + 1\<close>.
\<close>

fun lastSeparator :: "string \<Rightarrow> nat \<Rightarrow> nat" where
  "lastSeparator path 0 = 0"
| "lastSeparator path (Suc i) =
     (if \<not> IsPathSeparator (path ! i) then lastSeparator path i else Suc i)"

text \<open>
  \<^verbatim>\<open>filepath.Base\<close> on Unix, where the volume name is empty: the last element of the
  path; trailing separators are removed first; the empty path gives \<^verbatim>\<open>"."\<close>, a path
  of separators only gives \<^verbatim>\<open>"/"\<close>.
\<close>

definition Base :: "string \<Rightarrow> string" where
  "Base path =
     (if path = [] then ''.''
      else
        let path1 = stripTrailingSeparators path;
            i1 = lastSeparator path1 (length path1);
            path2 = (if 0 < i1 then drop i1 path1 else path1)
        in if path2 = [] then ''/'' else path2)"

subsection \<open>SanitizePath\<close>

definition SanitizePath :: "string \<Rightarrow> string" where
  "SanitizePath path =
     (let path1 = Base path;
          path2 = TrimSuffix path1 ''.yml'';
          path3 = TrimSuffix path2 ''.yaml'';
          path4 = TrimPrefix path3 ''.''
      in path4)"

subsection \<open>Data model\<close>

text \<open>\<^verbatim>\<open>map[string]string\<close>, also the type of a matrix axis (\<^verbatim>\<open>matrix.Axis\<close>).\<close>

type_synonym environ = "string \<rightharpoonup> string"

text \<open>\<^verbatim>\<open>model.StatusValue\<close>: the two states that stepBuilder.go assigns.\<close>

datatype StatusValue = StatusSkipped | StatusPending

text \<open>\<^verbatim>\<open>model.Workflow\<close>, with the fields that \<^verbatim>\<open>Build\<close> sets; \<^verbatim>\<open>ID\<close> is left at Go's
  zero value there.\<close>

record Workflow =
  wfID :: int
  wfPipelineID :: int
  wfPID :: int
  wfState :: StatusValue
  wfEnviron :: environ
  wfName :: string

text \<open>\<^verbatim>\<open>backend_types.Config\<close>, \<^verbatim>\<open>Stage\<close> and \<^verbatim>\<open>Step\<close>, with the fields that
  stepBuilder.go reads.\<close>

record Step =
  Alias :: string
  UUID :: string

record Stage =
  Steps :: "Step list"

record Config =
  Stages :: "Stage list"

record Item =
  Workflow :: Workflow
  Platform :: string
  Labels :: environ
  DependsOn :: "string list"
  RunsOn :: "string list"
  Config :: Config

text \<open>\<^verbatim>\<open>model.Repo\<close>, \<^verbatim>\<open>model.Pipeline\<close>, \<^verbatim>\<open>model.Netrc\<close>, \<^verbatim>\<open>model.Secret\<close>,
  \<^verbatim>\<open>model.Registry\<close> and \<^verbatim>\<open>forge_types.FileMeta\<close>, with the fields that stepBuilder.go
  reads. The event allow-list of a secret is read only by \<^verbatim>\<open>Secret.Match\<close>.\<close>

record Repo =
  IsTrusted :: bool
  IsSCMPrivate :: bool
  repoLink :: string
  NetrcOnlyTrusted :: bool

record Pipeline =
  plID :: int
  Event :: string

record Netrc =
  Login :: string
  Password :: string
  Machine :: string

record Secret =
  secName :: string
  secValue :: string
  Images :: "string list"
  Events :: "string list"
  PluginsOnly :: bool

record Registry =
  Address :: string
  regUsername :: string
  regPassword :: string
  regEmail :: string

record FileMeta =
  fmName :: string
  Data :: string

text \<open>The receiver of \<^verbatim>\<open>Build\<close>. \<^verbatim>\<open>Repo\<close>, \<^verbatim>\<open>Curr\<close> and \<^verbatim>\<open>Netrc\<close> are dereferenced
  without a nil check by the code, so they are values here; \<^verbatim>\<open>Last\<close> may be nil. The
  forge is an opaque handle.\<close>

record StepBuilder =
  Repo :: Repo
  Curr :: Pipeline
  Last :: "Pipeline option"
  Netrc :: Netrc
  Secs :: "Secret list"
  Regs :: "Registry list"
  Link :: string
  Yamls :: "FileMeta list"
  Envs :: environ
  Forge :: string

text \<open>Modelled from the spec: \<^verbatim>\<open>frontend.MetadataFromStruct\<close> is not under src/; the spec
  calls it a constructor function producing the metadata from (forge, repo, current
  pipeline, previous pipeline, workflow, event URL). The model keeps the six arguments
  as they are at the time of the call.\<close>

record Metadata =
  mdForge :: string
  mdRepo :: Repo
  mdCurr :: Pipeline
  mdLast :: "Pipeline option"
  mdWorkflow :: Workflow
  mdLink :: string

definition MetadataFromStruct ::
  "string \<Rightarrow> Repo \<Rightarrow> Pipeline \<Rightarrow> Pipeline option \<Rightarrow> Workflow \<Rightarrow> string \<Rightarrow> Metadata" where
  "MetadataFromStruct frg rp cur lst workflow lnk =
     \<lparr>mdForge = frg, mdRepo = rp, mdCurr = cur, mdLast = lst,
      mdWorkflow = workflow, mdLink = lnk\<rparr>"

text \<open>An error value returned by a collaborator, kept by its message.\<close>

type_synonym ext_error = string

text \<open>The errors \<^verbatim>\<open>Build\<close> returns: a collaborator's error passed on unchanged, the
  wrapper \<^verbatim>\<open>&yaml.PipelineParseError{Err: err}\<close>, and the error that
  \<^verbatim>\<open>fmt.Errorf("pipeline has no startpoint")\<close> creates.\<close>

datatype error = Collaborator ext_error | PipelineParseError ext_error | NoStartpoint

text \<open>A step of the declarative workflow, with the two fields the secret rules of the
  spec read.\<close>

record yamlStep =
  stImage :: string
  stCommands :: "string list"

text \<open>\<^verbatim>\<open>yaml_types.Workflow\<close>, the parsed workflow. The \<^verbatim>\<open>When\<close> constraint is kept as
  its method \<^verbatim>\<open>Match(metadata, global)\<close>, which returns a match flag and an error;
  \<^verbatim>\<open>Labels\<close> may be nil.\<close>

record yamlWorkflow =
  When :: "Metadata \<Rightarrow> bool \<Rightarrow> bool \<times> ext_error option"
  yLabels :: "environ option"
  yDependsOn :: "string list"
  yRunsOn :: "string list"
  yPlatform :: string
  ySteps :: "yamlStep list"

text \<open>\<^verbatim>\<open>compiler.Secret\<close> and \<^verbatim>\<open>compiler.Registry\<close>, as
  \<^verbatim>\<open>toInternalRepresentation\<close> fills them.\<close>

record compilerSecret =
  csName :: string
  csValue :: string
  csMatch :: "string list"
  csPluginOnly :: bool

record compilerRegistry =
  Hostname :: string
  crUsername :: string
  crPassword :: string
  crEmail :: string

text \<open>\<^verbatim>\<open>server.Config.Pipeline\<close>, the administrator's configuration that
  \<^verbatim>\<open>toInternalRepresentation\<close> reads.\<close>

record PipelineConfig =
  Privileged :: "string list"
  MemSwapLimit :: int
  MemLimit :: int
  ShmSize :: int
  CPUQuota :: int
  CPUShares :: int
  CPUSet :: string
  Volumes :: "string list"
  Networks :: "string list"
  DefaultCloneImage :: string
  AuthenticatePublicRepos :: bool

text \<open>Modelled from the spec: the compiler package is not under src/. The spec says
  that the options are a sequence of applications whose semantics are a single struct of
  settings; this is the struct, one field for each option that
  \<^verbatim>\<open>toInternalRepresentation\<close> applies. The prefix is kept as the pair of the ULID and
  the step id instead of the formatted string.\<close>

record Compiler =
  cEnv :: environ
  cEscalated :: "string list"
  cLimits :: "int \<times> int \<times> int \<times> int \<times> int \<times> string"
  cVolumes :: "string list"
  cNetworks :: "string list"
  cLocal :: bool
  cNetrc :: "(string \<times> string \<times> string) option"
  cDefaultCloneImage :: string
  cRegistries :: "compilerRegistry list"
  cSecrets :: "compilerSecret list"
  cPrefix :: "string \<times> int"
  cProxy :: bool
  cWorkspace :: "string \<times> string"
  cMetadata :: "Metadata option"
  cTrusted :: bool
  cNetrcOnlyTrusted :: bool

text \<open>The collaborators of stepBuilder.go that are not under src/, taken as parameters:
  \<^verbatim>\<open>forge_types.SortByName\<close>, \<^verbatim>\<open>matrix.ParseString\<close>, \<^verbatim>\<open>Metadata.Environ\<close>,
  \<^verbatim>\<open>frontend.EnvVarSubst\<close>, \<^verbatim>\<open>yaml.ParseString\<close>, the linter (by its trusted flag),
  \<^verbatim>\<open>Secret.Match\<close>, the image allow-list test of the compiler, \<^verbatim>\<open>Compiler.Compile\<close>,
  the server configuration and the ULID of the call.\<close>

record collab =
  SortByName :: "FileMeta list \<Rightarrow> FileMeta list"
  matrixParseString :: "string \<Rightarrow> ext_error + environ list"
  metadataEnviron :: "Metadata \<Rightarrow> environ"
  EnvVarSubst :: "string \<Rightarrow> environ \<Rightarrow> ext_error + string"
  yamlParseString :: "string \<Rightarrow> ext_error + yamlWorkflow"
  Lint :: "bool \<Rightarrow> yamlWorkflow \<Rightarrow> ext_error option"
  secretMatch :: "Secret \<Rightarrow> string \<Rightarrow> bool"
  imageAdmits :: "string list \<Rightarrow> string \<Rightarrow> bool"
  Compile :: "Compiler \<Rightarrow> yamlWorkflow \<Rightarrow> ext_error + Config"
  serverConfig :: PipelineConfig
  ulid :: string

subsection \<open>Dependency reconciliation\<close>

fun containsItemWithName :: "string \<Rightarrow> Item list \<Rightarrow> bool" where
  "containsItemWithName name [] = False"
| "containsItemWithName name (item # items) =
     (if name = wfName (Workflow item) then True else containsItemWithName name items)"

text \<open>The inner loop of \<^verbatim>\<open>filterItemsWithMissingDependencies\<close>: the item is appended to
  \<^verbatim>\<open>itemsToRemove\<close> once for each of its dependencies that no item bears.\<close>

fun missingDependencies :: "Item list \<Rightarrow> Item \<Rightarrow> string list \<Rightarrow> Item list \<Rightarrow> Item list" where
  "missingDependencies items item [] itemsToRemove = itemsToRemove"
| "missingDependencies items item (dep # deps) itemsToRemove =
     (if \<not> containsItemWithName dep items
      then missingDependencies items item deps (itemsToRemove @ [item])
      else missingDependencies items item deps itemsToRemove)"

text \<open>The outer loop, over the items not visited yet.\<close>

fun collectItemsToRemove :: "Item list \<Rightarrow> Item list \<Rightarrow> Item list \<Rightarrow> Item list" where
  "collectItemsToRemove items [] itemsToRemove = itemsToRemove"
| "collectItemsToRemove items (item # rest) itemsToRemove =
     collectItemsToRemove items rest
       (missingDependencies items item (DependsOn item) itemsToRemove)"

text \<open>The second loop: an item is kept when no item to remove bears its name.\<close>

fun keepItems :: "Item list \<Rightarrow> Item list \<Rightarrow> Item list \<Rightarrow> Item list" where
  "keepItems itemsToRemove [] filtered = filtered"
| "keepItems itemsToRemove (item # rest) filtered =
     (if \<not> containsItemWithName (wfName (Workflow item)) itemsToRemove
      then keepItems itemsToRemove rest (filtered @ [item])
      else keepItems itemsToRemove rest filtered)"

lemma containsItemWithName_iff:
  "containsItemWithName name items \<longleftrightarrow> (\<exists>item\<in>set items. wfName (Workflow item) = name)"
  by (induction items) auto

lemma missingDependencies_eq:
  "missingDependencies items item deps acc =
     acc @ map (\<lambda>_. item) (filter (\<lambda>dep. \<not> containsItemWithName dep items) deps)"
  by (induction deps arbitrary: acc) simp_all

lemma collectItemsToRemove_eq:
  "collectItemsToRemove items rest acc =
     acc @ concat (map (\<lambda>item. map (\<lambda>_. item)
        (filter (\<lambda>dep. \<not> containsItemWithName dep items) (DependsOn item))) rest)"
  by (induction rest arbitrary: acc) (simp_all add: missingDependencies_eq)

lemma set_collectItemsToRemove:
  "set (collectItemsToRemove items rest []) =
     {item \<in> set rest. \<exists>dep\<in>set (DependsOn item). \<not> containsItemWithName dep items}"
  by (auto simp: collectItemsToRemove_eq)

lemma keepItems_eq:
  "keepItems itemsToRemove rest acc =
     acc @ filter (\<lambda>item. \<not> containsItemWithName (wfName (Workflow item)) itemsToRemove) rest"
  by (induction rest arbitrary: acc) simp_all

lemma keepItems_shorter:
  assumes "0 < length (collectItemsToRemove items items [])"
  shows "length (keepItems (collectItemsToRemove items items []) items []) < length items"
proof -
  from assms obtain item where item: "item \<in> set (collectItemsToRemove items items [])"
    by (cases "collectItemsToRemove items items []") auto
  then have "item \<in> set items"
    by (simp add: set_collectItemsToRemove)
  moreover have "containsItemWithName (wfName (Workflow item)) (collectItemsToRemove items items [])"
    using item containsItemWithName_iff by blast
  ultimately show ?thesis
    by (simp add: keepItems_eq length_filter_less)
qed

function filterItemsWithMissingDependencies :: "Item list \<Rightarrow> Item list" where
  "filterItemsWithMissingDependencies items =
     (let itemsToRemove = collectItemsToRemove items items []
      in if 0 < length itemsToRemove
         then filterItemsWithMissingDependencies (keepItems itemsToRemove items [])
         else items)"
  by pat_completeness auto
termination
  by (relation "measure length") (simp_all add: keepItems_shorter)

declare filterItemsWithMissingDependencies.simps [simp del]

fun stepListContainsItemsToRun :: "Item list \<Rightarrow> bool" where
  "stepListContainsItemsToRun [] = False"
| "stepListContainsItemsToRun (item # items) =
     (if wfState (Workflow item) = StatusPending then True
      else stepListContainsItemsToRun items)"

subsection \<open>Compiler options\<close>

text \<open>Modelled from the spec: \<^verbatim>\<open>compiler.WithEnviron\<close> is not under src/. The spec says of
  the environment composition that the workflow environment is merged with the global
  environment and that later sources do not clobber earlier names: a name that the
  compiler's environment already holds keeps its value.\<close>

definition WithEnviron :: "environ \<Rightarrow> Compiler \<Rightarrow> Compiler" where
  "WithEnviron e c = c\<lparr>cEnv := (\<lambda>k. case cEnv c k of Some v \<Rightarrow> Some v | None \<Rightarrow> e k)\<rparr>"

text \<open>Modelled from the spec: the other options of the compiler package, not under
  src/; each one sets its field of the settings struct.\<close>

definition WithEscalated :: "string list \<Rightarrow> Compiler \<Rightarrow> Compiler" where
  "WithEscalated images c = c\<lparr>cEscalated := images\<rparr>"

definition WithResourceLimit ::
  "int \<Rightarrow> int \<Rightarrow> int \<Rightarrow> int \<Rightarrow> int \<Rightarrow> string \<Rightarrow> Compiler \<Rightarrow> Compiler" where
  "WithResourceLimit swap mem shmSize cpuQuota cpuShares cpuSet c =
     c\<lparr>cLimits := (swap, mem, shmSize, cpuQuota, cpuShares, cpuSet)\<rparr>"

definition WithVolumes :: "string list \<Rightarrow> Compiler \<Rightarrow> Compiler" where
  "WithVolumes vs c = c\<lparr>cVolumes := vs\<rparr>"

definition WithNetworks :: "string list \<Rightarrow> Compiler \<Rightarrow> Compiler" where
  "WithNetworks ns c = c\<lparr>cNetworks := ns\<rparr>"

definition WithLocal :: "bool \<Rightarrow> Compiler \<Rightarrow> Compiler" where
  "WithLocal l c = c\<lparr>cLocal := l\<rparr>"

definition WithNetrc :: "string \<Rightarrow> string \<Rightarrow> string \<Rightarrow> Compiler \<Rightarrow> Compiler" where
  "WithNetrc username password machine c = c\<lparr>cNetrc := Some (username, password, machine)\<rparr>"

definition WithOption :: "(Compiler \<Rightarrow> Compiler) \<Rightarrow> bool \<Rightarrow> Compiler \<Rightarrow> Compiler" where
  "WithOption option b c = (if b then option c else c)"

definition WithDefaultCloneImage :: "string \<Rightarrow> Compiler \<Rightarrow> Compiler" where
  "WithDefaultCloneImage cloneImage c = c\<lparr>cDefaultCloneImage := cloneImage\<rparr>"

definition WithRegistry :: "compilerRegistry list \<Rightarrow> Compiler \<Rightarrow> Compiler" where
  "WithRegistry rs c = c\<lparr>cRegistries := rs\<rparr>"

definition WithSecret :: "compilerSecret list \<Rightarrow> Compiler \<Rightarrow> Compiler" where
  "WithSecret ss c = c\<lparr>cSecrets := ss\<rparr>"

definition WithPrefix :: "string \<times> int \<Rightarrow> Compiler \<Rightarrow> Compiler" where
  "WithPrefix p c = c\<lparr>cPrefix := p\<rparr>"

definition WithProxy :: "Compiler \<Rightarrow> Compiler" where
  "WithProxy c = c\<lparr>cProxy := True\<rparr>"

definition WithWorkspaceFromURL :: "string \<Rightarrow> string \<Rightarrow> Compiler \<Rightarrow> Compiler" where
  "WithWorkspaceFromURL base url c = c\<lparr>cWorkspace := (base, url)\<rparr>"

definition WithMetadata :: "Metadata \<Rightarrow> Compiler \<Rightarrow> Compiler" where
  "WithMetadata md c = c\<lparr>cMetadata := Some md\<rparr>"

definition WithTrusted :: "bool \<Rightarrow> Compiler \<Rightarrow> Compiler" where
  "WithTrusted t c = c\<lparr>cTrusted := t\<rparr>"

definition WithNetrcOnlyTrusted :: "bool \<Rightarrow> Compiler \<Rightarrow> Compiler" where
  "WithNetrcOnlyTrusted t c = c\<lparr>cNetrcOnlyTrusted := t\<rparr>"

definition emptyCompiler :: Compiler where
  "emptyCompiler =
     \<lparr>cEnv = Map.empty, cEscalated = [], cLimits = (0, 0, 0, 0, 0, []), cVolumes = [],
      cNetworks = [], cLocal = False, cNetrc = None, cDefaultCloneImage = [],
      cRegistries = [], cSecrets = [], cPrefix = ([], 0), cProxy = False,
      cWorkspace = ([], []), cMetadata = None, cTrusted = False,
      cNetrcOnlyTrusted = False\<rparr>"

text \<open>\<^verbatim>\<open>compiler.New(opts...)\<close>: the options are applied in the order they are written.\<close>

definition New :: "(Compiler \<Rightarrow> Compiler) list \<Rightarrow> Compiler" where
  "New opts = foldl (\<lambda>c opt. opt c) emptyCompiler opts"

text \<open>Modelled from the spec: the secret injection of the compiler, not under src/. Of
  the secrets the compiler was given, one reaches a step iff its image allow-list admits
  the step's image and its plugin-only flag is compatible: a plugin-only secret only
  reaches a step that declares no custom commands.\<close>

definition stepSecrets :: "collab \<Rightarrow> Compiler \<Rightarrow> yamlStep \<Rightarrow> compilerSecret list" where
  "stepSecrets P c step =
     filter (\<lambda>secret. imageAdmits P (csMatch secret) (stImage step) \<and>
                      (if csPluginOnly secret then stCommands step = [] else True))
       (cSecrets c)"

subsection \<open>toInternalRepresentation\<close>

text \<open>The \<^verbatim>\<open>compiler.Secret\<close> that the loop over \<^verbatim>\<open>b.Secs\<close> makes of a secret.\<close>

definition compilerSecretOf :: "Secret \<Rightarrow> compilerSecret" where
  "compilerSecretOf sec =
     \<lparr>csName = secName sec, csValue = secValue sec, csMatch = Images sec,
      csPluginOnly = PluginsOnly sec\<rparr>"

text \<open>The loop over \<^verbatim>\<open>b.Secs\<close>: a secret that does not match the event is skipped.\<close>

fun secretsLoop :: "collab \<Rightarrow> string \<Rightarrow> Secret list \<Rightarrow> compilerSecret list \<Rightarrow> compilerSecret list" where
  "secretsLoop P event [] secrets = secrets"
| "secretsLoop P event (sec # secs) secrets =
     (if \<not> secretMatch P sec event then secretsLoop P event secs secrets
      else secretsLoop P event secs (secrets @ [compilerSecretOf sec]))"

fun registriesLoop :: "Registry list \<Rightarrow> compilerRegistry list \<Rightarrow> compilerRegistry list" where
  "registriesLoop [] registries = registries"
| "registriesLoop (reg # regs) registries =
     registriesLoop regs
       (registries @ [\<lparr>Hostname = Address reg, crUsername = regUsername reg,
                        crPassword = regPassword reg, crEmail = regEmail reg\<rparr>])"

text \<open>The compiler that \<^verbatim>\<open>toInternalRepresentation\<close> builds, before \<^verbatim>\<open>Compile\<close> runs.\<close>

definition newCompiler ::
  "collab \<Rightarrow> StepBuilder \<Rightarrow> environ \<Rightarrow> Metadata \<Rightarrow> int \<Rightarrow> Compiler" where
  "newCompiler P b environ md stepID =
     (let secrets = secretsLoop P (Event (Curr b)) (Secs b) [];
          registries = registriesLoop (Regs b) [];
          cfg = serverConfig P
      in New
        [WithEnviron environ,
         WithEnviron (Envs b),
         WithEscalated (Privileged cfg),
         WithResourceLimit (MemSwapLimit cfg) (MemLimit cfg) (ShmSize cfg) (CPUQuota cfg)
           (CPUShares cfg) (CPUSet cfg),
         WithVolumes (Volumes cfg),
         WithNetworks (Networks cfg),
         WithLocal False,
         WithOption
           (WithNetrc (Login (Netrc b)) (Password (Netrc b)) (Machine (Netrc b)))
           (IsSCMPrivate (Repo b) \<or> AuthenticatePublicRepos cfg),
         WithDefaultCloneImage (DefaultCloneImage cfg),
         WithRegistry registries,
         WithSecret secrets,
         WithPrefix (ulid P, stepID),
         WithProxy,
         WithWorkspaceFromURL ''/woodpecker'' (repoLink (Repo b)),
         WithMetadata md,
         WithTrusted (IsTrusted (Repo b)),
         WithNetrcOnlyTrusted (NetrcOnlyTrusted (Repo b))])"

definition toInternalRepresentation ::
  "collab \<Rightarrow> StepBuilder \<Rightarrow> yamlWorkflow \<Rightarrow> environ \<Rightarrow> Metadata \<Rightarrow> int \<Rightarrow> ext_error + Config" where
  "toInternalRepresentation P b parsed environ md stepID =
     Compile P (newCompiler P b environ md stepID) parsed"

subsection \<open>Build\<close>

text \<open>\<^verbatim>\<open>environmentVariables\<close>: the environment of the metadata, with the values of the
  axis written over it.\<close>

definition environmentVariables :: "collab \<Rightarrow> Metadata \<Rightarrow> environ \<Rightarrow> environ" where
  "environmentVariables P md axis = metadataEnviron P md ++ axis"

text \<open>The loop over \<^verbatim>\<open>b.Envs\<close> in \<^verbatim>\<open>Build\<close>: a key that exists keeps its value, any
  other key of the global environment is added. The keys of a Go map are distinct, so
  the order of the iteration does not show in the result.\<close>

definition addGlobalEnviron :: "environ \<Rightarrow> environ \<Rightarrow> environ" where
  "addGlobalEnviron environ envs =
     (\<lambda>k. case environ k of Some v \<Rightarrow> Some v | None \<Rightarrow> envs k)"

text \<open>The workflow record a pass of the inner loop starts from, its metadata and its
  environment for the substitution.\<close>

definition newWorkflow :: "StepBuilder \<Rightarrow> FileMeta \<Rightarrow> int \<Rightarrow> environ \<Rightarrow> Workflow" where
  "newWorkflow b y pidSequence axis =
     \<lparr>wfID = 0, wfPipelineID = plID (Curr b), wfPID = pidSequence,
      wfState = StatusPending, wfEnviron = axis, wfName = SanitizePath (fmName y)\<rparr>"

definition workflowMetadata :: "StepBuilder \<Rightarrow> FileMeta \<Rightarrow> int \<Rightarrow> environ \<Rightarrow> Metadata" where
  "workflowMetadata b y pidSequence axis =
     MetadataFromStruct (Forge b) (Repo b) (Curr b) (Last b)
       (newWorkflow b y pidSequence axis) (Link b)"

definition substEnviron :: "collab \<Rightarrow> StepBuilder \<Rightarrow> FileMeta \<Rightarrow> int \<Rightarrow> environ \<Rightarrow> environ" where
  "substEnviron P b y pidSequence axis =
     addGlobalEnviron
       (environmentVariables P (workflowMetadata b y pidSequence axis) axis) (Envs b)"

text \<open>The item of a workflow: the \<^verbatim>\<open>Item\<close> literal of \<^verbatim>\<open>Build\<close>, with the empty map
  for nil labels.\<close>

definition newItem :: "Workflow \<Rightarrow> yamlWorkflow \<Rightarrow> Config \<Rightarrow> Item" where
  "newItem workflow parsed ir =
     \<lparr>Workflow = workflow, Platform = yPlatform parsed,
      Labels = (case yLabels parsed of None \<Rightarrow> Map.empty | Some l \<Rightarrow> l),
      DependsOn = yDependsOn parsed, RunsOn = yRunsOn parsed, Config = ir\<rparr>"

text \<open>The end of a pass of the inner loop, from the call of
  \<^verbatim>\<open>toInternalRepresentation\<close> on: \<open>None\<close> is the \<^verbatim>\<open>continue\<close> of a plan with no stage.\<close>

definition lowerWorkflow ::
  "collab \<Rightarrow> StepBuilder \<Rightarrow> yamlWorkflow \<Rightarrow> environ \<Rightarrow> Metadata \<Rightarrow> Workflow \<Rightarrow> error + Item option" where
  "lowerWorkflow P b parsed environ md workflow =
     (case toInternalRepresentation P b parsed environ md (wfID workflow) of
        Inl err \<Rightarrow> Inl (Collaborator err)
      | Inr ir \<Rightarrow>
          if length (Stages ir) = 0 then Inr None
          else Inr (Some (newItem workflow parsed ir)))"

text \<open>One pass of the inner loop of \<^verbatim>\<open>Build\<close>, for one axis of one file.\<close>

definition buildAxis ::
  "collab \<Rightarrow> StepBuilder \<Rightarrow> FileMeta \<Rightarrow> int \<Rightarrow> environ \<Rightarrow> error + Item option" where
  "buildAxis P b y pidSequence axis =
     (let workflow = newWorkflow b y pidSequence axis;
          md = workflowMetadata b y pidSequence axis;
          environ = substEnviron P b y pidSequence axis
      in case EnvVarSubst P (Data y) environ of
           Inl err \<Rightarrow> Inl (Collaborator err)
         | Inr substituted \<Rightarrow>
            (case yamlParseString P substituted of
               Inl err \<Rightarrow> Inl (PipelineParseError err)
             | Inr parsed \<Rightarrow>
                (case Lint P (IsTrusted (Repo b)) parsed of
                   Some err \<Rightarrow> Inl (PipelineParseError err)
                 | None \<Rightarrow>
                    (case When parsed md True of
                       (match, err) \<Rightarrow>
                         if \<not> match \<and> err = None
                         then lowerWorkflow P b parsed environ md
                                (workflow\<lparr>wfState := StatusSkipped\<rparr>)
                         else (case err of
                                 Some e \<Rightarrow> Inl (Collaborator e)
                               | None \<Rightarrow> lowerWorkflow P b parsed environ md workflow)))))"

text \<open>The inner loop, over the axes of a file; the state is the item list and
  \<^verbatim>\<open>pidSequence\<close>.\<close>

fun buildAxes ::
  "collab \<Rightarrow> StepBuilder \<Rightarrow> FileMeta \<Rightarrow> environ list \<Rightarrow> Item list \<times> int \<Rightarrow> error + Item list \<times> int" where
  "buildAxes P b y [] st = Inr st"
| "buildAxes P b y (axis # axes) (items, pidSequence) =
     (case buildAxis P b y pidSequence axis of
        Inl err \<Rightarrow> Inl err
      | Inr None \<Rightarrow> buildAxes P b y axes (items, pidSequence)
      | Inr (Some item) \<Rightarrow> buildAxes P b y axes (items @ [item], pidSequence + 1))"

text \<open>The axes of a file: a file that declares no matrix has the one empty axis.\<close>

definition fileAxes :: "environ list \<Rightarrow> environ list" where
  "fileAxes axes = (if length axes = 0 then axes @ [Map.empty] else axes)"

text \<open>The outer loop, over the files.\<close>

fun buildYamls ::
  "collab \<Rightarrow> StepBuilder \<Rightarrow> FileMeta list \<Rightarrow> Item list \<times> int \<Rightarrow> error + Item list \<times> int" where
  "buildYamls P b [] st = Inr st"
| "buildYamls P b (y # ys) st =
     (case matrixParseString P (Data y) of
        Inl err \<Rightarrow> Inl (Collaborator err)
      | Inr axes \<Rightarrow>
         (case buildAxes P b y (fileAxes axes) st of
            Inl err \<Rightarrow> Inl err
          | Inr st' \<Rightarrow> buildYamls P b ys st'))"

text \<open>The items of the two loops, before the dependencies are reconciled.\<close>

definition compileItems :: "collab \<Rightarrow> StepBuilder \<Rightarrow> error + Item list" where
  "compileItems P b =
     (case buildYamls P b (SortByName P (Yamls b)) ([], 1) of
        Inl err \<Rightarrow> Inl err
      | Inr (items, pidSequence) \<Rightarrow> Inr items)"

definition Build :: "collab \<Rightarrow> StepBuilder \<Rightarrow> error + Item list" where
  "Build P b =
     (case compileItems P b of
        Inl err \<Rightarrow> Inl err
      | Inr items0 \<Rightarrow>
          let items = filterItemsWithMissingDependencies items0
          in if 0 < length items \<and> \<not> stepListContainsItemsToRun items
             then Inl NoStartpoint
             else Inr items)"

subsection \<open>The expansions of the spec\<close>

text \<open>The number the spec gives for a file: the size of the product of its matrix, or
  1 for a file that declares no matrix. \<^verbatim>\<open>matrix.ParseString\<close> returns the product as
  the list of its axes.\<close>

definition matrixCardinality :: "collab \<Rightarrow> FileMeta \<Rightarrow> nat" where
  "matrixCardinality P y =
     (case matrixParseString P (Data y) of
        Inl err \<Rightarrow> 0
      | Inr axes \<Rightarrow> if length axes = 0 then 1 else length axes)"

definition totalExpansions :: "collab \<Rightarrow> FileMeta list \<Rightarrow> nat" where
  "totalExpansions P ys = sum_list (map (matrixCardinality P) ys)"

text \<open>The passes of a run that end in the \<^verbatim>\<open>continue\<close> of a plan with no stage, counted
  along the two loops with the state the loops have when they reach each pass.\<close>

fun droppedAxes ::
  "collab \<Rightarrow> StepBuilder \<Rightarrow> FileMeta \<Rightarrow> environ list \<Rightarrow> Item list \<times> int \<Rightarrow> nat" where
  "droppedAxes P b y [] st = 0"
| "droppedAxes P b y (axis # axes) (items, pidSequence) =
     (case buildAxis P b y pidSequence axis of
        Inl err \<Rightarrow> 0
      | Inr None \<Rightarrow> Suc (droppedAxes P b y axes (items, pidSequence))
      | Inr (Some item) \<Rightarrow> droppedAxes P b y axes (items @ [item], pidSequence + 1))"

fun droppedYamls ::
  "collab \<Rightarrow> StepBuilder \<Rightarrow> FileMeta list \<Rightarrow> Item list \<times> int \<Rightarrow> nat" where
  "droppedYamls P b [] st = 0"
| "droppedYamls P b (y # ys) st =
     (case matrixParseString P (Data y) of
        Inl err \<Rightarrow> 0
      | Inr axes \<Rightarrow>
         (case buildAxes P b y (fileAxes axes) st of
            Inl err \<Rightarrow> 0
          | Inr st' \<Rightarrow> droppedAxes P b y (fileAxes axes) st + droppedYamls P b ys st'))"

definition droppedPasses :: "collab \<Rightarrow> StepBuilder \<Rightarrow> nat" where
  "droppedPasses P b = droppedYamls P b (SortByName P (Yamls b)) ([], 1)"

section \<open>A small instance for evaluating the model\<close>

text \<open>Items as \<^verbatim>\<open>Build\<close> hands them to the reconciler, given by workflow name, state,
  dependencies and PID.\<close>

definition demoItem :: "string \<Rightarrow> StatusValue \<Rightarrow> string list \<Rightarrow> int \<Rightarrow> Item" where
  "demoItem name state deps pid =
     \<lparr>Workflow = \<lparr>wfID = 0, wfPipelineID = 1, wfPID = pid, wfState = state,
                   wfEnviron = Map.empty, wfName = name\<rparr>,
      Platform = [], Labels = Map.empty, DependsOn = deps, RunsOn = [],
      Config = \<lparr>Stages = [\<lparr>Steps = [\<lparr>Alias = ''step'', UUID = []\<rparr>]\<rparr>]\<rparr>\<rparr>"

text \<open>Concrete collaborators over a toy source language: the text of a file is a string
  of flags. \<open>S\<close>: the when-filter misses; \<open>W\<close>: the when-filter fails; \<open>E\<close>: the workflow
  has no step, so that its plan has no stage; \<open>L\<close>: its step names no image, which the
  linter rejects; \<open>D\<close>: the workflow depends on a workflow \<open>missing\<close>; \<open>M\<close>: the file
  declares a matrix of two axes. Substitution leaves the text as it is, files are given
  in the order of their names, a secret matches an event (an image) when its allow-list
  is empty or holds it.\<close>

definition demoParsed :: "string \<Rightarrow> yamlWorkflow" where
  "demoParsed src =
     \<lparr>When = (\<lambda>md global.
                if CHR ''W'' \<in> set src then (False, Some ''when'')
                else (CHR ''S'' \<notin> set src, None)),
      yLabels = None,
      yDependsOn = (if CHR ''D'' \<in> set src then [''missing''] else []),
      yRunsOn = [],
      yPlatform = [],
      ySteps = (if CHR ''E'' \<in> set src then []
                else [\<lparr>stImage = (if CHR ''L'' \<in> set src then [] else ''alpine''),
                       stCommands = [''echo hi'']\<rparr>])\<rparr>"

definition demoCompile :: "Compiler \<Rightarrow> yamlWorkflow \<Rightarrow> ext_error + Config" where
  "demoCompile c parsed =
     Inr \<lparr>Stages = (if length (ySteps parsed) = 0 then []
                    else [\<lparr>Steps = map (\<lambda>st. \<lparr>Alias = stImage st, UUID = []\<rparr>)
                                      (ySteps parsed)\<rparr>])\<rparr>"

definition demoCollab :: collab where
  "demoCollab =
     \<lparr>SortByName = (\<lambda>ys. ys),
      matrixParseString = (\<lambda>src. if CHR ''M'' \<in> set src
                                  then Inr [[''GO'' \<mapsto> ''1''], [''GO'' \<mapsto> ''2'']]
                                  else Inr []),
      metadataEnviron = (\<lambda>md. [''CI_WORKFLOW_NAME'' \<mapsto> wfName (mdWorkflow md),
                               ''CI_PIPELINE_EVENT'' \<mapsto> Event (mdCurr md)]),
      EnvVarSubst = (\<lambda>src environ. Inr src),
      yamlParseString = (\<lambda>src. Inr (demoParsed src)),
      Lint = (\<lambda>trusted parsed. if list_ex (\<lambda>st. stImage st = []) (ySteps parsed)
                                then Some ''lint'' else None),
      secretMatch = (\<lambda>sec event. Events sec = [] \<or> event \<in> set (Events sec)),
      imageAdmits = (\<lambda>images image. images = [] \<or> image \<in> set images),
      Compile = demoCompile,
      serverConfig = \<lparr>Privileged = [], MemSwapLimit = 0, MemLimit = 0, ShmSize = 0,
                       CPUQuota = 0, CPUShares = 0, CPUSet = [], Volumes = [],
                       Networks = [], DefaultCloneImage = ''clone'',
                       AuthenticatePublicRepos = False\<rparr>,
      ulid = ''01hx''\<rparr>"

definition demoToken :: Secret where
  "demoToken =
     \<lparr>secName = ''TOKEN'', secValue = ''t'', Images = [''plugins/git''],
      Events = [''push''], PluginsOnly = True\<rparr>"

definition demoDeploy :: Secret where
  "demoDeploy =
     \<lparr>secName = ''DEPLOY'', secValue = ''d'', Images = [], Events = [''tag''],
      PluginsOnly = False\<rparr>"

definition demoKey :: Secret where
  "demoKey =
     \<lparr>secName = ''KEY'', secValue = ''k'', Images = [], Events = [],
      PluginsOnly = False\<rparr>"

definition demoBuilder :: "FileMeta list \<Rightarrow> StepBuilder" where
  "demoBuilder yamls =
     \<lparr>Repo = \<lparr>IsTrusted = False, IsSCMPrivate = False, repoLink = ''link'',
               NetrcOnlyTrusted = False\<rparr>,
      Curr = \<lparr>plID = 7, Event = ''push''\<rparr>,
      Last = None,
      Netrc = \<lparr>Login = [], Password = [], Machine = []\<rparr>,
      Secs = [demoToken, demoDeploy, demoKey],
      Regs = [],
      Link = ''link'',
      Yamls = yamls,
      Envs = [''CI_PIPELINE_EVENT'' \<mapsto> ''fake'', ''GLOBAL'' \<mapsto> ''g''],
      Forge = ''forge''\<rparr>"

text \<open>What a result of \<^verbatim>\<open>Build\<close> shows of its items: name, PID and state.\<close>

definition summary :: "error + Item list \<Rightarrow> error + (string \<times> int \<times> StatusValue) list" where
  "summary r =
     (case r of
        Inl err \<Rightarrow> Inl err
      | Inr items \<Rightarrow>
          Inr (map (\<lambda>item. (wfName (Workflow item), wfPID (Workflow item),
                            wfState (Workflow item))) items))"

definition demoFile :: "string \<Rightarrow> string \<Rightarrow> FileMeta" where
  "demoFile name src = \<lparr>fmName = name, Data = src\<rparr>"

text \<open>The plan the toy compiler gives a workflow with its one step, and the item of a
  pending workflow with that plan.\<close>

definition demoPlan :: Config where
  "demoPlan = \<lparr>Stages = [\<lparr>Steps = [\<lparr>Alias = ''alpine'', UUID = []\<rparr>]\<rparr>]\<rparr>"

definition demoPending :: "string \<Rightarrow> int \<Rightarrow> string list \<Rightarrow> Item" where
  "demoPending name pid deps =
     \<lparr>Workflow = \<lparr>wfID = 0, wfPipelineID = 7, wfPID = pid, wfState = StatusPending,
                   wfEnviron = Map.empty, wfName = name\<rparr>,
      Platform = [], Labels = Map.empty, DependsOn = deps, RunsOn = [],
      Config = \<lparr>Stages = [\<lparr>Steps = [\<lparr>Alias = ''alpine'', UUID = []\<rparr>]\<rparr>]\<rparr>\<rparr>"

text \<open>The inputs of the examples of the reconciler.\<close>

definition demoChain :: "Item list" where
  "demoChain =
     [demoItem ''a'' StatusPending [''b''] 1, demoItem ''c'' StatusPending [''a''] 2,
      demoItem ''d'' StatusPending [] 3, demoItem ''e'' StatusSkipped [''d''] 4]"

definition demoSelf :: "Item list" where
  "demoSelf =
     [demoItem ''s'' StatusSkipped [] 1, demoItem ''w'' StatusPending [''s'', ''w''] 2,
      demoItem ''x'' StatusPending [''missing''] 3]"

definition demoDup :: "Item list" where
  "demoDup =
     [demoItem ''a'' StatusPending [''a''] 1, demoItem ''a'' StatusPending [''zzz''] 2,
      demoItem ''b'' StatusSkipped [] 3]"

section \<open>SanitizePath\<close>

lemma lastSeparator_noSep:
  "lastSeparator path n = 0 \<Longrightarrow> i < n \<Longrightarrow> \<not> IsPathSeparator (path ! i)"
  by (induction n) (auto split: if_splits simp: less_Suc_eq)

lemma lastSeparator_zero:
  "\<forall>i<n. \<not> IsPathSeparator (path ! i) \<Longrightarrow> lastSeparator path n = 0"
  by (induction n) auto

lemma lastSeparator_le: "lastSeparator path n \<le> n"
  by (induction n) auto

lemma lastSeparator_after:
  "lastSeparator path n \<le> i \<Longrightarrow> i < n \<Longrightarrow> \<not> IsPathSeparator (path ! i)"
  by (induction n) (auto split: if_splits simp: less_Suc_eq)

lemma stripTrailingSeparators_noSep:
  "\<forall>c\<in>set path. \<not> IsPathSeparator c \<Longrightarrow> stripTrailingSeparators path = path"
  by (subst stripTrailingSeparators.simps) auto

lemma noSep_nth: "(\<forall>c\<in>set path. \<not> IsPathSeparator c) \<longleftrightarrow> (\<forall>i<length path. \<not> IsPathSeparator (path ! i))"
  by (metis in_set_conv_nth)

lemma Base_shape:
  "Base path = ''/'' \<or> (Base path \<noteq> [] \<and> (\<forall>c\<in>set (Base path). \<not> IsPathSeparator c))"
proof (cases "path = []")
  case True
  then show ?thesis by (simp add: Base_def IsPathSeparator_def)
next
  case False
  define path1 where "path1 = stripTrailingSeparators path"
  define i1 where "i1 = lastSeparator path1 (length path1)"
  define path2 where "path2 = (if 0 < i1 then drop i1 path1 else path1)"
  have B: "Base path = (if path2 = [] then ''/'' else path2)"
    using False by (simp add: Base_def Let_def path1_def i1_def path2_def)
  have "\<forall>i<length path2. \<not> IsPathSeparator (path2 ! i)"
  proof (intro allI impI)
    fix i assume i: "i < length path2"
    show "\<not> IsPathSeparator (path2 ! i)"
    proof (cases "0 < i1")
      case True
      then have p2: "path2 = drop i1 path1" by (simp add: path2_def)
      with i have "i1 + i < length path1" by simp
      moreover have "i1 \<le> i1 + i" by simp
      ultimately have "\<not> IsPathSeparator (path1 ! (i1 + i))"
        using lastSeparator_after [of path1 "length path1" "i1 + i"] by (simp add: i1_def)
      then show ?thesis using p2 i by simp
    next
      case F: False
      then have "path2 = path1" "lastSeparator path1 (length path1) = 0"
        by (simp_all add: path2_def i1_def)
      then show ?thesis using lastSeparator_noSep i by simp
    qed
  qed
  then have "\<forall>c\<in>set path2. \<not> IsPathSeparator c" by (simp add: noSep_nth)
  then show ?thesis using B by auto
qed

lemma Base_noSep:
  assumes "path \<noteq> []" "\<forall>c\<in>set path. \<not> IsPathSeparator c"
  shows "Base path = path"
proof -
  have "stripTrailingSeparators path = path" using assms stripTrailingSeparators_noSep by simp
  moreover have "lastSeparator path (length path) = 0"
    using assms(2) by (intro lastSeparator_zero) (simp add: noSep_nth)
  ultimately show ?thesis using assms(1) by (simp add: Base_def)
qed

lemma TrimSuffix_set: "set (TrimSuffix s suf) \<subseteq> set s"
  by (auto simp: TrimSuffix_def dest: in_set_takeD)

lemma TrimPrefix_set: "set (TrimPrefix s pre) \<subseteq> set s"
  by (auto simp: TrimPrefix_def dest: in_set_dropD)

lemma TrimSuffix_length: "length (TrimSuffix s suf) \<le> length s"
  by (simp add: TrimSuffix_def)

lemma TrimPrefix_length: "length (TrimPrefix s pre) \<le> length s"
  by (simp add: TrimPrefix_def)

lemma TrimSuffix_fires: "HasSuffix s suf \<Longrightarrow> suf \<noteq> [] \<Longrightarrow> length (TrimSuffix s suf) < length s"
  by (cases suf) (auto simp: TrimSuffix_def HasSuffix_def)

lemma TrimPrefix_fires: "HasPrefix s pre \<Longrightarrow> pre \<noteq> [] \<Longrightarrow> length (TrimPrefix s pre) < length s"
  by (cases pre) (auto simp: TrimPrefix_def HasPrefix_def)

text \<open>The three trimming steps of \<^verbatim>\<open>SanitizePath\<close>, after \<^verbatim>\<open>filepath.Base\<close>.\<close>

definition trims :: "string \<Rightarrow> string" where
  "trims s = TrimPrefix (TrimSuffix (TrimSuffix s ''.yml'') ''.yaml'') ''.''"

lemma SanitizePath_trims: "SanitizePath path = trims (Base path)"
  by (simp add: SanitizePath_def trims_def)

lemma trims_fixed:
  "trims s = s \<longleftrightarrow> \<not> HasPrefix s ''.'' \<and> \<not> HasSuffix s ''.yml'' \<and> \<not> HasSuffix s ''.yaml''"
proof (cases "HasSuffix s ''.yml''")
  case True
  then have "length (TrimSuffix s ''.yml'') < length s" by (simp add: TrimSuffix_fires)
  moreover have "length (trims s) \<le> length (TrimSuffix s ''.yml'')"
    unfolding trims_def using TrimPrefix_length TrimSuffix_length le_trans by blast
  ultimately have "trims s \<noteq> s" by auto
  with True show ?thesis by simp
next
  case F1: False
  then have t1: "TrimSuffix s ''.yml'' = s" by (simp add: TrimSuffix_def)
  show ?thesis
  proof (cases "HasSuffix s ''.yaml''")
    case True
    then have "length (TrimSuffix s ''.yaml'') < length s" by (simp add: TrimSuffix_fires)
    moreover have "length (trims s) \<le> length (TrimSuffix s ''.yaml'')"
      unfolding trims_def t1 using TrimPrefix_length by blast
    ultimately have "trims s \<noteq> s" by auto
    with True show ?thesis by simp
  next
    case F2: False
    then have t2: "trims s = TrimPrefix s ''.''" unfolding trims_def t1 by (simp add: TrimSuffix_def)
    show ?thesis
    proof (cases "HasPrefix s ''.''")
      case True
      then have "length (TrimPrefix s ''.'') < length s" by (simp add: TrimPrefix_fires)
      then have "trims s \<noteq> s" using t2 by auto
      with True show ?thesis by simp
    next
      case False
      then show ?thesis using F1 F2 t2 by (simp add: TrimPrefix_def)
    qed
  qed
qed

lemma trims_set: "set (trims s) \<subseteq> set s"
  unfolding trims_def using TrimSuffix_set TrimPrefix_set by blast

lemma SanitizePath_twice:
  "SanitizePath (SanitizePath path) = trims (SanitizePath path)"
proof -
  consider (slash) "Base path = ''/''"
    | (plain) "Base path \<noteq> []" "\<forall>c\<in>set (Base path). \<not> IsPathSeparator c"
    using Base_shape by blast
  then show ?thesis
  proof cases
    case slash
    have "trims ''/'' = ''/''" by code_simp
    then have "SanitizePath path = ''/''"
      using slash by (simp add: SanitizePath_trims)
    moreover have "Base ''/'' = ''/''" by code_simp
    ultimately show ?thesis by (simp add: SanitizePath_trims)
  next
    case plain
    let ?r = "SanitizePath path"
    have ns: "\<forall>c\<in>set ?r. \<not> IsPathSeparator c"
      using plain(2) trims_set [of "Base path"] by (auto simp: SanitizePath_trims)
    show ?thesis
    proof (cases "?r = []")
      case True
      have "SanitizePath [] = trims []" by code_simp
      then show ?thesis unfolding True .
    next
      case False
      then have "Base ?r = ?r" using ns Base_noSep by simp
      then show ?thesis by (simp add: SanitizePath_trims)
    qed
  qed
qed

text \<open>
  Claim C9, as the spec states it: \<^verbatim>\<open>SanitizePath\<close> is idempotent. The code removes one
  \<^verbatim>\<open>.yml\<close> suffix, then one \<^verbatim>\<open>.yaml\<close> suffix, then one leading dot, so a second
  application can remove more: \<^verbatim>\<open>a.yml.yml\<close> becomes \<^verbatim>\<open>a.yml\<close> and then \<^verbatim>\<open>a\<close>.
\<close>

theorem C9_sanitize_not_idempotent:
  "SanitizePath ''.woodpecker/a.yml.yml'' = ''a.yml'' \<and>
   SanitizePath (SanitizePath ''.woodpecker/a.yml.yml'') = ''a'' \<and>
   SanitizePath (SanitizePath ''.woodpecker/a.yml.yml'') \<noteq> SanitizePath ''.woodpecker/a.yml.yml''"
  by code_simp

text \<open>
  Claim C9, amended: applying \<^verbatim>\<open>SanitizePath\<close> a second time changes nothing exactly when
  the first result has no leading dot and does not end in \<^verbatim>\<open>.yml\<close> or \<^verbatim>\<open>.yaml\<close>.
\<close>

theorem C9_sanitize_idempotent_iff:
  "SanitizePath (SanitizePath path) = SanitizePath path \<longleftrightarrow>
     \<not> HasPrefix (SanitizePath path) ''.'' \<and>
     \<not> HasSuffix (SanitizePath path) ''.yml'' \<and>
     \<not> HasSuffix (SanitizePath path) ''.yaml''"
  by (simp add: SanitizePath_twice trims_fixed)

section \<open>The dependency reconciler\<close>

lemma filter_fixed:
  "collectItemsToRemove items items [] = [] \<Longrightarrow> filterItemsWithMissingDependencies items = items"
  by (subst filterItemsWithMissingDependencies.simps) simp

lemma filter_step:
  "collectItemsToRemove items items [] \<noteq> [] \<Longrightarrow>
   filterItemsWithMissingDependencies items =
     filterItemsWithMissingDependencies (keepItems (collectItemsToRemove items items []) items [])"
  by (subst filterItemsWithMissingDependencies.simps) simp

lemma filter_resolved:
  "collectItemsToRemove (filterItemsWithMissingDependencies items)
     (filterItemsWithMissingDependencies items) [] = []"
proof (induction items rule: filterItemsWithMissingDependencies.induct)
  case (1 items)
  show ?case
  proof (cases "collectItemsToRemove items items [] = []")
    case True
    then show ?thesis by (simp add: filter_fixed)
  next
    case False
    then show ?thesis using 1 by (simp add: filter_step)
  qed
qed

lemma filter_subseq: "subseq (filterItemsWithMissingDependencies items) items"
proof (induction items rule: filterItemsWithMissingDependencies.induct)
  case (1 items)
  show ?case
  proof (cases "collectItemsToRemove items items [] = []")
    case True
    then show ?thesis by (simp add: filter_fixed)
  next
    case False
    have "subseq (keepItems (collectItemsToRemove items items []) items []) items"
      by (simp add: keepItems_eq)
    moreover have "subseq (filterItemsWithMissingDependencies items)
        (keepItems (collectItemsToRemove items items []) items [])"
      using 1 False by (simp add: filter_step)
    ultimately show ?thesis using subseq_order.trans by blast
  qed
qed

lemma filter_set: "set (filterItemsWithMissingDependencies items) \<subseteq> set items"
proof
  fix x assume "x \<in> set (filterItemsWithMissingDependencies items)"
  from list_emb_set [OF filter_subseq this] show "x \<in> set items" by blast
qed

lemma filter_removes:
  assumes "item \<in> set items" "dep \<in> set (DependsOn item)" "\<not> containsItemWithName dep items"
  shows "item \<notin> set (filterItemsWithMissingDependencies items)"
proof -
  let ?r = "collectItemsToRemove items items []"
  have r: "item \<in> set ?r" using assms by (auto simp: set_collectItemsToRemove)
  then have ne: "?r \<noteq> []" by auto
  have "containsItemWithName (wfName (Workflow item)) ?r" using r containsItemWithName_iff by blast
  then have "item \<notin> set (keepItems ?r items [])" by (simp add: keepItems_eq)
  moreover have "set (filterItemsWithMissingDependencies items) \<subseteq> set (keepItems ?r items [])"
    using filter_step [OF ne] filter_set [of "keepItems ?r items []"] by simp
  ultimately show ?thesis by blast
qed

lemma filter_keeps:
  assumes "\<forall>item\<in>set items. wfName (Workflow item) \<in> S \<longrightarrow>
             (\<forall>dep\<in>set (DependsOn item). dep \<in> S \<and> containsItemWithName dep items)"
    and "item \<in> set items" "wfName (Workflow item) \<in> S"
  shows "item \<in> set (filterItemsWithMissingDependencies items)"
  using assms
proof (induction items rule: filterItemsWithMissingDependencies.induct)
  case (1 items)
  let ?r = "collectItemsToRemove items items []"
  show ?case
  proof (cases "?r = []")
    case True
    then show ?thesis using 1(3) by (simp add: filter_fixed)
  next
    case False
    let ?k = "keepItems ?r items []"
    have out: "\<And>j. j \<in> set ?r \<Longrightarrow> wfName (Workflow j) \<notin> S"
      using 1(2) by (auto simp: set_collectItemsToRemove)
    have kept: "j \<in> set ?k" if "j \<in> set items" "wfName (Workflow j) \<in> S" for j
    proof -
      have "\<not> containsItemWithName (wfName (Workflow j)) ?r"
        using out that(2) by (metis containsItemWithName_iff)
      then show ?thesis using that(1) by (simp add: keepItems_eq)
    qed
    have sub: "set ?k \<subseteq> set items" by (auto simp: keepItems_eq)
    have "\<forall>j\<in>set ?k. wfName (Workflow j) \<in> S \<longrightarrow>
             (\<forall>dep\<in>set (DependsOn j). dep \<in> S \<and> containsItemWithName dep ?k)"
    proof (intro ballI impI)
      fix j dep assume j: "j \<in> set ?k" "wfName (Workflow j) \<in> S" "dep \<in> set (DependsOn j)"
      then have "dep \<in> S \<and> containsItemWithName dep items" using 1(2) sub by blast
      then obtain d where "d \<in> set items" "wfName (Workflow d) = dep" "dep \<in> S"
        by (auto simp: containsItemWithName_iff)
      then have "d \<in> set ?k" using kept by blast
      then show "dep \<in> S \<and> containsItemWithName dep ?k"
        using \<open>wfName (Workflow d) = dep\<close> \<open>dep \<in> S\<close> containsItemWithName_iff by blast
    qed
    moreover have "item \<in> set ?k" using kept 1(3,4) by blast
    ultimately have "item \<in> set (filterItemsWithMissingDependencies ?k)"
      using 1(1) False 1(4) by simp
    then show ?thesis using False by (simp add: filter_step)
  qed
qed

lemma contains_map:
  assumes "\<forall>i. wfName (Workflow (g i)) = wfName (Workflow i)"
  shows "containsItemWithName n (map g items) = containsItemWithName n items"
  using assms by (induction items) auto

lemma collect_map:
  assumes "\<forall>i. wfName (Workflow (g i)) = wfName (Workflow i) \<and> DependsOn (g i) = DependsOn i"
  shows "collectItemsToRemove (map g items) (map g rest) [] = map g (collectItemsToRemove items rest [])"
  using assms by (simp add: collectItemsToRemove_eq contains_map map_concat comp_def)

lemma keep_map:
  assumes "\<forall>i. wfName (Workflow (g i)) = wfName (Workflow i) \<and> DependsOn (g i) = DependsOn i"
  shows "keepItems (map g r) (map g items) [] = map g (keepItems r items [])"
  using assms by (simp add: keepItems_eq contains_map filter_map comp_def)

lemma filter_map_items:
  assumes "\<forall>i. wfName (Workflow (g i)) = wfName (Workflow i) \<and> DependsOn (g i) = DependsOn i"
  shows "filterItemsWithMissingDependencies (map g items) = map g (filterItemsWithMissingDependencies items)"
proof (induction items rule: filterItemsWithMissingDependencies.induct)
  case (1 items)
  let ?r = "collectItemsToRemove items items []"
  have c: "collectItemsToRemove (map g items) (map g items) [] = map g ?r"
    using assms by (rule collect_map)
  show ?case
  proof (cases "?r = []")
    case True
    then show ?thesis using c by (simp add: filter_fixed)
  next
    case False
    then have "map g ?r \<noteq> []" by simp
    then have "filterItemsWithMissingDependencies (map g items) =
        filterItemsWithMissingDependencies (keepItems (map g ?r) (map g items) [])"
      using c filter_step by metis
    also have "\<dots> = filterItemsWithMissingDependencies (map g (keepItems ?r items []))"
      using assms by (simp add: keep_map)
    also have "\<dots> = map g (filterItemsWithMissingDependencies (keepItems ?r items []))"
      using 1 False by simp
    finally show ?thesis using False by (simp add: filter_step)
  qed
qed


lemma filter_by_name:
  "\<exists>N. filterItemsWithMissingDependencies items =
     filter (\<lambda>item. wfName (Workflow item) \<in> N) items"
proof (induction items rule: filterItemsWithMissingDependencies.induct)
  case (1 items)
  let ?r = "collectItemsToRemove items items []"
  show ?case
  proof (cases "?r = []")
    case True
    then have "filterItemsWithMissingDependencies items =
        filter (\<lambda>item. wfName (Workflow item) \<in> UNIV) items"
      by (simp add: filter_fixed)
    then show ?thesis by (rule exI)
  next
    case False
    let ?k = "keepItems ?r items []"
    from 1 False obtain N where
      N: "filterItemsWithMissingDependencies ?k = filter (\<lambda>item. wfName (Workflow item) \<in> N) ?k"
      by auto
    have "filterItemsWithMissingDependencies items =
        filter (\<lambda>item. wfName (Workflow item) \<in> {n \<in> N. \<not> containsItemWithName n ?r}) items"
      using False N by (simp add: filter_step keepItems_eq conj_commute)
    then show ?thesis by (rule exI)
  qed
qed

lemma filter_same_name:
  assumes "j \<in> set (filterItemsWithMissingDependencies items)"
    and "item \<in> set items" "wfName (Workflow item) = wfName (Workflow j)"
  shows "item \<in> set (filterItemsWithMissingDependencies items)"
proof -
  obtain N where N: "filterItemsWithMissingDependencies items =
      filter (\<lambda>item. wfName (Workflow item) \<in> N) items"
    using filter_by_name by blast
  then have "wfName (Workflow j) \<in> N" using assms(1) by simp
  then show ?thesis using N assms(2,3) by simp
qed

lemma filter_closed:
  assumes "item \<in> set (filterItemsWithMissingDependencies items)"
    and "dep \<in> set (DependsOn item)"
  shows "containsItemWithName dep (filterItemsWithMissingDependencies items)"
  using assms filter_resolved [of items]
    set_collectItemsToRemove [of "filterItemsWithMissingDependencies items"
      "filterItemsWithMissingDependencies items"]
  by auto

lemma contains_filtered:
  "containsItemWithName dep (filterItemsWithMissingDependencies items) \<Longrightarrow>
     containsItemWithName dep items"
  using filter_set [of items] by (auto simp: containsItemWithName_iff)

lemma filter_removed_iff:
  assumes "item \<in> set items"
  shows "item \<notin> set (filterItemsWithMissingDependencies items) \<longleftrightarrow>
     (\<exists>j\<in>set items. wfName (Workflow j) = wfName (Workflow item) \<and>
        (\<exists>dep\<in>set (DependsOn j).
           \<not> containsItemWithName dep (filterItemsWithMissingDependencies items)))"
proof
  assume out: "item \<notin> set (filterItemsWithMissingDependencies items)"
  show "\<exists>j\<in>set items. wfName (Workflow j) = wfName (Workflow item) \<and>
        (\<exists>dep\<in>set (DependsOn j).
           \<not> containsItemWithName dep (filterItemsWithMissingDependencies items))"
  proof (rule ccontr)
    assume n: "\<not> (\<exists>j\<in>set items. wfName (Workflow j) = wfName (Workflow item) \<and>
        (\<exists>dep\<in>set (DependsOn j).
           \<not> containsItemWithName dep (filterItemsWithMissingDependencies items)))"
    let ?S = "insert (wfName (Workflow item))
        ((\<lambda>i. wfName (Workflow i)) ` set (filterItemsWithMissingDependencies items))"
    have "\<forall>i\<in>set items. wfName (Workflow i) \<in> ?S \<longrightarrow>
        (\<forall>dep\<in>set (DependsOn i). dep \<in> ?S \<and> containsItemWithName dep items)"
    proof (intro ballI impI)
      fix i dep
      assume i: "i \<in> set items" "wfName (Workflow i) \<in> ?S" "dep \<in> set (DependsOn i)"
      have "containsItemWithName dep (filterItemsWithMissingDependencies items)"
      proof (cases "wfName (Workflow i) = wfName (Workflow item)")
        case True
        then show ?thesis using n i(1,3) by blast
      next
        case False
        then obtain j where "j \<in> set (filterItemsWithMissingDependencies items)"
          "wfName (Workflow i) = wfName (Workflow j)"
          using i(2) by auto
        then have "i \<in> set (filterItemsWithMissingDependencies items)"
          using filter_same_name i(1) by blast
        then show ?thesis using filter_closed i(3) by blast
      qed
      then show "dep \<in> ?S \<and> containsItemWithName dep items"
        using contains_filtered by (auto simp: containsItemWithName_iff)
    qed
    then have "item \<in> set (filterItemsWithMissingDependencies items)"
      using assms by (rule filter_keeps) simp
    then show False using out by simp
  qed
next
  assume "\<exists>j\<in>set items. wfName (Workflow j) = wfName (Workflow item) \<and>
        (\<exists>dep\<in>set (DependsOn j).
           \<not> containsItemWithName dep (filterItemsWithMissingDependencies items))"
  then obtain j dep where j: "j \<in> set items" "wfName (Workflow j) = wfName (Workflow item)"
    "dep \<in> set (DependsOn j)"
    "\<not> containsItemWithName dep (filterItemsWithMissingDependencies items)"
    by blast
  then have "j \<notin> set (filterItemsWithMissingDependencies items)"
    using filter_closed by blast
  then show "item \<notin> set (filterItemsWithMissingDependencies items)"
    using filter_same_name [of item items j] j(1,2) by auto
qed

lemma filter_same_name_unresolved:
  assumes "item \<in> set items" "j \<in> set items"
    and "wfName (Workflow j) = wfName (Workflow item)"
    and "dep \<in> set (DependsOn j)" "\<not> containsItemWithName dep items"
  shows "item \<notin> set (filterItemsWithMissingDependencies items)"
proof -
  have "\<not> containsItemWithName dep (filterItemsWithMissingDependencies items)"
    using assms(5) contains_filtered by blast
  then show ?thesis
    using filter_removed_iff [OF assms(1)] assms(2,3,4) by blast
qed

text \<open>
  Claim C5: after \<^verbatim>\<open>filterItemsWithMissingDependencies\<close> returns, every name in the
  \<^verbatim>\<open>DependsOn\<close> list of every surviving item is the workflow name of a surviving item;
  every item of the input that has a dependency no item of the input bears is removed;
  the survivors are a subsequence of the input, and they are a fixed point: filtering
  them again removes nothing. The function is total (its termination is proved with its
  definition).
\<close>

theorem C5_dependency_closure:
  "(\<forall>item\<in>set (filterItemsWithMissingDependencies items). \<forall>dep\<in>set (DependsOn item).
      containsItemWithName dep (filterItemsWithMissingDependencies items)) \<and>
   (\<forall>item\<in>set items. (\<exists>dep\<in>set (DependsOn item). \<not> containsItemWithName dep items) \<longrightarrow>
      item \<notin> set (filterItemsWithMissingDependencies items)) \<and>
   subseq (filterItemsWithMissingDependencies items) items \<and>
   filterItemsWithMissingDependencies (filterItemsWithMissingDependencies items) =
     filterItemsWithMissingDependencies items"
proof (intro conjI ballI impI)
  fix item dep
  assume "item \<in> set (filterItemsWithMissingDependencies items)" "dep \<in> set (DependsOn item)"
  then show "containsItemWithName dep (filterItemsWithMissingDependencies items)"
    using filter_resolved [of items]
      set_collectItemsToRemove [of "filterItemsWithMissingDependencies items" "filterItemsWithMissingDependencies items"]
    by auto
next
  fix item
  assume "item \<in> set items" "\<exists>dep\<in>set (DependsOn item). \<not> containsItemWithName dep items"
  then show "item \<notin> set (filterItemsWithMissingDependencies items)"
    using filter_removes by blast
next
  show "subseq (filterItemsWithMissingDependencies items) items" by (rule filter_subseq)
next
  show "filterItemsWithMissingDependencies (filterItemsWithMissingDependencies items) =
     filterItemsWithMissingDependencies items"
    using filter_resolved filter_fixed by blast
qed

lemma demoChain_filtered:
  "filterItemsWithMissingDependencies demoChain =
     [demoItem ''d'' StatusPending [] 3, demoItem ''e'' StatusSkipped [''d''] 4]"
proof -
  have c1: "collectItemsToRemove demoChain demoChain [] = [demoItem ''a'' StatusPending [''b''] 1]"
    by (simp add: demoChain_def demoItem_def)
  have k1: "keepItems [demoItem ''a'' StatusPending [''b''] 1] demoChain [] =
      [demoItem ''c'' StatusPending [''a''] 2, demoItem ''d'' StatusPending [] 3,
       demoItem ''e'' StatusSkipped [''d''] 4]" (is "_ = ?l1")
    by (simp add: demoChain_def demoItem_def)
  have c2: "collectItemsToRemove ?l1 ?l1 [] = [demoItem ''c'' StatusPending [''a''] 2]"
    by (simp add: demoItem_def)
  have k2: "keepItems [demoItem ''c'' StatusPending [''a''] 2] ?l1 [] =
      [demoItem ''d'' StatusPending [] 3, demoItem ''e'' StatusSkipped [''d''] 4]" (is "_ = ?l2")
    by (simp add: demoItem_def)
  have c3: "collectItemsToRemove ?l2 ?l2 [] = []"
    by (simp add: demoItem_def)
  have "filterItemsWithMissingDependencies demoChain = filterItemsWithMissingDependencies ?l1"
    using filter_step [of demoChain] c1 k1 by simp
  also have "\<dots> = filterItemsWithMissingDependencies ?l2"
    using filter_step [of ?l1] c2 k2 by simp
  also have "\<dots> = ?l2" using filter_fixed [OF c3] .
  finally show ?thesis .
qed

text \<open>Claim C5 at the chain \<open>a \<rightarrow> b\<close> (missing), \<open>c \<rightarrow> a\<close>, \<open>d\<close>, \<open>e \<rightarrow> d\<close>: \<open>a\<close> and then
  \<open>c\<close> are removed, \<open>d\<close> and \<open>e\<close> survive.\<close>

theorem C5_dependency_closure_witness:
  "containsItemWithName ''d'' (filterItemsWithMissingDependencies demoChain) \<and>
   demoItem ''a'' StatusPending [''b''] 1 \<notin> set (filterItemsWithMissingDependencies demoChain) \<and>
   subseq (filterItemsWithMissingDependencies demoChain) demoChain \<and>
   filterItemsWithMissingDependencies (filterItemsWithMissingDependencies demoChain) =
     filterItemsWithMissingDependencies demoChain"
proof -
  have e: "demoItem ''e'' StatusSkipped [''d''] 4 \<in> set (filterItemsWithMissingDependencies demoChain)"
    by (simp add: demoChain_filtered)
  have d: "''d'' \<in> set (DependsOn (demoItem ''e'' StatusSkipped [''d''] 4))"
    by (simp add: demoItem_def)
  have a: "demoItem ''a'' StatusPending [''b''] 1 \<in> set demoChain"
    by (simp add: demoChain_def)
  have b: "''b'' \<in> set (DependsOn (demoItem ''a'' StatusPending [''b''] 1))"
    by (simp add: demoItem_def)
  have nb: "\<not> containsItemWithName ''b'' demoChain"
    by (simp add: demoChain_def demoItem_def)
  show ?thesis
    using C5_dependency_closure [of demoChain] e d a b nb by blast
qed

text \<open>
  Claim C10, as stated: a workflow that depends on a skipped workflow, or on its own
  name, is never removed. Here \<open>w\<close> depends on the skipped workflow \<open>s\<close> only, and an
  item of the list bears the name \<open>s\<close>; \<open>s\<close> has an unresolved dependency and is
  removed by the first pass, \<open>w\<close> by the second.
\<close>

theorem C10_dependant_of_skipped_removed:
  "DependsOn (demoItem ''w'' StatusPending [''s''] 2) =
     [wfName (Workflow (demoItem ''s'' StatusSkipped [''missing''] 1))] \<and>
   wfState (Workflow (demoItem ''s'' StatusSkipped [''missing''] 1)) = StatusSkipped \<and>
   containsItemWithName ''s''
     [demoItem ''s'' StatusSkipped [''missing''] 1, demoItem ''w'' StatusPending [''s''] 2] \<and>
   map (\<lambda>item. wfName (Workflow item))
     (filterItemsWithMissingDependencies
        [demoItem ''s'' StatusSkipped [''missing''] 1, demoItem ''w'' StatusPending [''s''] 2]) = []"
  by code_simp

text \<open>
  Claim C10, amended: the resolver compares workflow names only. A dependency is
  satisfied exactly when some item of the list bears the name, whatever its state and
  also when it is the depending item itself; changing the states of the items changes
  nothing in what is removed. The items bearing the names of a set \<open>S\<close> all survive
  whenever \<open>S\<close> supports itself, that is, every dependency of every item bearing a name
  of \<open>S\<close> is a name of \<open>S\<close> that some item of the list bears. An item of the list is
  removed exactly when some item of the list bearing its workflow name, itself or
  another, has a dependency that no surviving item bears; so it is removed when an item
  of the same name has a dependency that no item of the list bears, and when a workflow
  it depends on is removed with all the items of that name.
\<close>

theorem C10_names_only:
  "(containsItemWithName name items \<longleftrightarrow> name \<in> set (map (\<lambda>item. wfName (Workflow item)) items)) \<and>
   filterItemsWithMissingDependencies
       (map (\<lambda>item. item\<lparr>Workflow := (Workflow item)\<lparr>wfState := st item\<rparr>\<rparr>) items) =
     map (\<lambda>item. item\<lparr>Workflow := (Workflow item)\<lparr>wfState := st item\<rparr>\<rparr>)
       (filterItemsWithMissingDependencies items) \<and>
   ((\<forall>item\<in>set items. wfName (Workflow item) \<in> S \<longrightarrow>
        (\<forall>dep\<in>set (DependsOn item). dep \<in> S \<and> containsItemWithName dep items)) \<longrightarrow>
    (\<forall>item\<in>set items. wfName (Workflow item) \<in> S \<longrightarrow>
        item \<in> set (filterItemsWithMissingDependencies items))) \<and>
   (item \<in> set items \<longrightarrow>
      (item \<notin> set (filterItemsWithMissingDependencies items) \<longleftrightarrow>
         (\<exists>j\<in>set items. wfName (Workflow j) = wfName (Workflow item) \<and>
            (\<exists>dep\<in>set (DependsOn j).
               \<not> containsItemWithName dep (filterItemsWithMissingDependencies items))))) \<and>
   (item \<in> set items \<and> j \<in> set items \<and> wfName (Workflow j) = wfName (Workflow item) \<and>
      dep \<in> set (DependsOn j) \<and> \<not> containsItemWithName dep items \<longrightarrow>
      item \<notin> set (filterItemsWithMissingDependencies items))"
proof (intro conjI)
  show "containsItemWithName name items \<longleftrightarrow>
      name \<in> set (map (\<lambda>item. wfName (Workflow item)) items)"
    by (auto simp: containsItemWithName_iff)
next
  show "filterItemsWithMissingDependencies
       (map (\<lambda>item. item\<lparr>Workflow := (Workflow item)\<lparr>wfState := st item\<rparr>\<rparr>) items) =
     map (\<lambda>item. item\<lparr>Workflow := (Workflow item)\<lparr>wfState := st item\<rparr>\<rparr>)
       (filterItemsWithMissingDependencies items)"
    by (rule filter_map_items) simp
next
  show "(\<forall>item\<in>set items. wfName (Workflow item) \<in> S \<longrightarrow>
        (\<forall>dep\<in>set (DependsOn item). dep \<in> S \<and> containsItemWithName dep items)) \<longrightarrow>
    (\<forall>item\<in>set items. wfName (Workflow item) \<in> S \<longrightarrow>
        item \<in> set (filterItemsWithMissingDependencies items))"
  proof (intro impI ballI)
    fix i
    assume "\<forall>item\<in>set items. wfName (Workflow item) \<in> S \<longrightarrow>
        (\<forall>dep\<in>set (DependsOn item). dep \<in> S \<and> containsItemWithName dep items)"
      and "i \<in> set items" "wfName (Workflow i) \<in> S"
    then show "i \<in> set (filterItemsWithMissingDependencies items)"
      by (rule filter_keeps)
  qed
next
  show "item \<in> set items \<longrightarrow>
      (item \<notin> set (filterItemsWithMissingDependencies items) \<longleftrightarrow>
         (\<exists>j\<in>set items. wfName (Workflow j) = wfName (Workflow item) \<and>
            (\<exists>dep\<in>set (DependsOn j).
               \<not> containsItemWithName dep (filterItemsWithMissingDependencies items))))"
    using filter_removed_iff by (rule impI)
next
  show "item \<in> set items \<and> j \<in> set items \<and> wfName (Workflow j) = wfName (Workflow item) \<and>
      dep \<in> set (DependsOn j) \<and> \<not> containsItemWithName dep items \<longrightarrow>
      item \<notin> set (filterItemsWithMissingDependencies items)"
    using filter_same_name_unresolved by blast
qed

text \<open>Claim C10 at three lists. In the first, \<open>w\<close> depends on the skipped \<open>s\<close> and on
  itself, beside an item \<open>x\<close> with an unresolved dependency: \<open>w\<close> survives. In the second,
  an item \<open>a\<close> depends on its own name only, and another item of the name \<open>a\<close> has an
  unresolved dependency: both are removed. In the third, \<open>c\<close> depends on \<open>a\<close>, which is
  removed: \<open>c\<close> is removed.\<close>

theorem C10_names_only_witness:
  "containsItemWithName ''w'' demoSelf \<and>
   containsItemWithName ''s'' demoSelf \<and>
   wfState (Workflow (demoItem ''s'' StatusSkipped [] 1)) = StatusSkipped \<and>
   demoItem ''s'' StatusSkipped [] 1 \<in> set demoSelf \<and>
   demoItem ''w'' StatusPending [''s'', ''w''] 2 \<in> set (filterItemsWithMissingDependencies demoSelf) \<and>
   demoItem ''a'' StatusPending [''a''] 1 \<in> set demoDup \<and>
   containsItemWithName ''a'' demoDup \<and>
   demoItem ''a'' StatusPending [''a''] 1 \<notin> set (filterItemsWithMissingDependencies demoDup) \<and>
   demoItem ''c'' StatusPending [''a''] 2 \<in> set demoChain \<and>
   containsItemWithName ''a'' demoChain \<and>
   demoItem ''c'' StatusPending [''a''] 2 \<notin> set (filterItemsWithMissingDependencies demoChain)"
proof -
  have h: "\<forall>item\<in>set demoSelf. wfName (Workflow item) \<in> {''s'', ''w''} \<longrightarrow>
        (\<forall>dep\<in>set (DependsOn item). dep \<in> {''s'', ''w''} \<and> containsItemWithName dep demoSelf)"
    by (simp add: demoSelf_def demoItem_def)
  have w: "demoItem ''w'' StatusPending [''s'', ''w''] 2 \<in> set demoSelf"
    by (simp add: demoSelf_def)
  have n: "wfName (Workflow (demoItem ''w'' StatusPending [''s'', ''w''] 2)) \<in> {''s'', ''w''}"
    by (simp add: demoItem_def)
  have c: "containsItemWithName ''w'' demoSelf \<and> containsItemWithName ''s'' demoSelf \<and>
      wfState (Workflow (demoItem ''s'' StatusSkipped [] 1)) = StatusSkipped \<and>
      demoItem ''s'' StatusSkipped [] 1 \<in> set demoSelf"
    by (simp add: demoSelf_def demoItem_def)
  have 1: "demoItem ''w'' StatusPending [''s'', ''w''] 2 \<in>
      set (filterItemsWithMissingDependencies demoSelf)"
    using C10_names_only [of _ demoSelf _ "{''s'', ''w''}"] h w n by blast
  have a: "demoItem ''a'' StatusPending [''a''] 1 \<in> set demoDup \<and>
      demoItem ''a'' StatusPending [''zzz''] 2 \<in> set demoDup \<and>
      wfName (Workflow (demoItem ''a'' StatusPending [''zzz''] 2)) =
        wfName (Workflow (demoItem ''a'' StatusPending [''a''] 1)) \<and>
      ''zzz'' \<in> set (DependsOn (demoItem ''a'' StatusPending [''zzz''] 2)) \<and>
      \<not> containsItemWithName ''zzz'' demoDup"
    by (simp add: demoDup_def demoItem_def)
  have ca: "containsItemWithName ''a'' demoDup"
    by (simp add: demoDup_def demoItem_def)
  have 2: "demoItem ''a'' StatusPending [''a''] 1 \<notin>
      set (filterItemsWithMissingDependencies demoDup)"
    using C10_names_only [of _ demoDup _ _ "demoItem ''a'' StatusPending [''a''] 1"
        "demoItem ''a'' StatusPending [''zzz''] 2" "''zzz''"] a
    by blast
  have m: "demoItem ''c'' StatusPending [''a''] 2 \<in> set demoChain"
    by (simp add: demoChain_def)
  have cc: "containsItemWithName ''a'' demoChain"
    by (simp add: demoChain_def demoItem_def)
  have d: "''a'' \<in> set (DependsOn (demoItem ''c'' StatusPending [''a''] 2)) \<and>
      wfName (Workflow (demoItem ''c'' StatusPending [''a''] 2)) =
        wfName (Workflow (demoItem ''c'' StatusPending [''a''] 2))"
    by (simp add: demoItem_def)
  have r: "\<not> containsItemWithName ''a'' (filterItemsWithMissingDependencies demoChain)"
    by (simp add: demoChain_filtered demoItem_def)
  have 3: "demoItem ''c'' StatusPending [''a''] 2 \<notin>
      set (filterItemsWithMissingDependencies demoChain)"
    using C10_names_only [of _ demoChain _ _ "demoItem ''c'' StatusPending [''a''] 2"] m d r
    by blast
  show ?thesis
    using c 1 a ca 2 m cc 3 by simp
qed

section \<open>The loops of Build\<close>

lemma lowerWorkflow_cases:
  "lowerWorkflow P b parsed environ md workflow = Inr (Some item) \<Longrightarrow>
     \<exists>ir. toInternalRepresentation P b parsed environ md (wfID workflow) = Inr ir \<and>
          Stages ir \<noteq> [] \<and> item = newItem workflow parsed ir"
  by (auto simp: lowerWorkflow_def split: sum.splits if_splits)

lemma lowerWorkflow_error:
  "lowerWorkflow P b parsed environ md workflow = Inl e \<Longrightarrow> \<exists>err. e = Collaborator err"
  by (auto simp: lowerWorkflow_def split: sum.splits if_splits)

lemma buildAxis_error:
  "buildAxis P b y pid axis = Inl e \<Longrightarrow> e \<noteq> NoStartpoint"
  by (auto simp: buildAxis_def Let_def split: sum.splits option.splits prod.splits if_splits
      dest: lowerWorkflow_error)

lemma buildAxis_item:
  assumes "buildAxis P b y pid axis = Inr (Some item)"
  shows "wfPID (Workflow item) = pid"
  using assms
  by (auto simp: buildAxis_def Let_def newItem_def newWorkflow_def
      split: sum.splits option.splits prod.splits if_splits dest!: lowerWorkflow_cases)

text \<open>The state of the loops: the PIDs of the items so far are \<open>1, \<dots>, n\<close>, and
  \<^verbatim>\<open>pidSequence\<close> is \<open>n + 1\<close>.\<close>

definition dense :: "Item list \<times> int \<Rightarrow> bool" where
  "dense st \<longleftrightarrow>
     map (\<lambda>item. wfPID (Workflow item)) (fst st) = [1..int (length (fst st))] \<and>
     snd st = int (length (fst st)) + 1"

lemma dense_append:
  assumes "dense (items, pid)" "wfPID (Workflow item) = pid"
  shows "dense (items @ [item], pid + 1)"
proof -
  have "[1..int (length items) + 1] = [1..int (length items)] @ [int (length items) + 1]"
    using upto_rec2 [of 1 "int (length items) + 1"] by simp
  then show ?thesis using assms by (simp add: dense_def add.commute)
qed

lemma buildAxes_dense:
  "buildAxes P b y axes st = Inr st' \<Longrightarrow> dense st \<Longrightarrow> dense st'"
proof (induction axes arbitrary: st)
  case Nil
  then show ?case by simp
next
  case (Cons axis axes)
  obtain items pid where st: "st = (items, pid)" by (cases st)
  show ?case
  proof (cases "buildAxis P b y pid axis")
    case (Inl e)
    then show ?thesis using Cons.prems st by simp
  next
    case (Inr r)
    show ?thesis
    proof (cases r)
      case None
      then show ?thesis using Cons Inr st by simp
    next
      case (Some item)
      then have "dense (items @ [item], pid + 1)"
        using Inr Cons.prems(2) st buildAxis_item dense_append by blast
      then show ?thesis using Cons Inr Some st by simp
    qed
  qed
qed

lemma buildYamls_dense:
  "buildYamls P b ys st = Inr st' \<Longrightarrow> dense st \<Longrightarrow> dense st'"
proof (induction ys arbitrary: st)
  case Nil
  then show ?case by simp
next
  case (Cons y ys)
  then show ?case
    by (auto split: sum.splits dest: buildAxes_dense)
qed

lemma buildAxes_error:
  "buildAxes P b y axes st = Inl e \<Longrightarrow> e \<noteq> NoStartpoint"
proof (induction axes arbitrary: st)
  case Nil
  then show ?case by simp
next
  case (Cons axis axes)
  obtain items pid where st: "st = (items, pid)" by (cases st)
  show ?case using Cons st
    by (auto split: sum.splits option.splits dest: buildAxis_error)
qed

lemma buildYamls_error:
  "buildYamls P b ys st = Inl e \<Longrightarrow> e \<noteq> NoStartpoint"
proof (induction ys arbitrary: st)
  case Nil
  then show ?case by simp
next
  case (Cons y ys)
  then show ?case
    by (auto split: sum.splits dest: buildAxes_error)
qed

lemma compileItems_error: "compileItems P b = Inl e \<Longrightarrow> e \<noteq> NoStartpoint"
  by (auto simp: compileItems_def split: sum.splits prod.splits dest: buildYamls_error)

lemma compileItems_dense:
  assumes "compileItems P b = Inr items"
  shows "map (\<lambda>item. wfPID (Workflow item)) items = [1..int (length items)]"
proof -
  from assms obtain pid where
    "buildYamls P b (SortByName P (Yamls b)) ([], 1) = Inr (items, pid)"
    by (auto simp: compileItems_def split: sum.splits prod.splits)
  moreover have "dense ([], 1)" by (simp add: dense_def)
  ultimately have "dense (items, pid)" using buildYamls_dense by blast
  then show ?thesis by (simp add: dense_def)
qed

lemma stepListContainsItemsToRun_iff:
  "stepListContainsItemsToRun items \<longleftrightarrow>
     (\<exists>item\<in>set items. wfState (Workflow item) = StatusPending)"
  by (induction items) auto

lemma Build_cases:
  "Build P b = Inr items \<longleftrightarrow>
     (\<exists>items0. compileItems P b = Inr items0 \<and> items = filterItemsWithMissingDependencies items0 \<and>
        (items = [] \<or> stepListContainsItemsToRun items))"
  by (auto simp: Build_def Let_def split: sum.splits)

lemma sorted_wrt_subseq:
  "subseq xs ys \<Longrightarrow> sorted_wrt R ys \<Longrightarrow> sorted_wrt R xs"
proof (induction rule: list_emb.induct)
  case (list_emb_Nil ys)
  then show ?case by simp
next
  case (list_emb_Cons xs ys y)
  then show ?case by simp
next
  case (list_emb_Cons2 x y xs ys)
  then show ?case using list_emb_set by fastforce
qed

lemma buildAxes_append:
  "buildAxes P b y (as1 @ as2) st =
     (case buildAxes P b y as1 st of Inl e \<Rightarrow> Inl e | Inr st' \<Rightarrow> buildAxes P b y as2 st')"
proof (induction as1 arbitrary: st)
  case Nil
  then show ?case by simp
next
  case (Cons axis as1)
  obtain items pid where st: "st = (items, pid)" by (cases st)
  show ?case using Cons st by (simp split: sum.splits option.splits)
qed

lemma buildYamls_append:
  "buildYamls P b (ys1 @ ys2) st =
     (case buildYamls P b ys1 st of Inl e \<Rightarrow> Inl e | Inr st' \<Rightarrow> buildYamls P b ys2 st')"
  by (induction ys1 arbitrary: st) (simp_all split: sum.splits)

lemma buildAxes_prefix:
  "buildAxes P b y axes st = Inr st' \<Longrightarrow> prefix (fst st) (fst st')"
proof (induction axes arbitrary: st)
  case Nil
  then show ?case by simp
next
  case (Cons axis axes)
  obtain items pid where st: "st = (items, pid)" by (cases st)
  show ?case
  proof (cases "buildAxis P b y pid axis")
    case (Inl e)
    then show ?thesis using Cons.prems st by simp
  next
    case (Inr r)
    show ?thesis
    proof (cases r)
      case None
      then have "prefix (fst (items, pid)) (fst st')"
        using Cons.IH [of "(items, pid)"] Cons.prems Inr st by simp
      then show ?thesis using st by simp
    next
      case (Some item)
      then have "prefix (items @ [item]) (fst st')"
        using Cons.IH [of "(items @ [item], pid + 1)"] Cons.prems Inr st by simp
      then show ?thesis using st append_prefixD by auto
    qed
  qed
qed

lemma buildYamls_prefix:
  "buildYamls P b ys st = Inr st' \<Longrightarrow> prefix (fst st) (fst st')"
proof (induction ys arbitrary: st)
  case Nil
  then show ?case by simp
next
  case (Cons y ys)
  then show ?case
    by (auto split: sum.splits dest!: buildAxes_prefix) (meson prefix_order.trans)
qed

text \<open>The pass for an axis of a file, reached with the state \<open>(items, pid)\<close>: the files
  before it and the axes before it have been built without error.\<close>

lemma pass_fails:
  assumes "ys = ys1 @ y # ys2"
    and "buildYamls P b ys1 st0 = Inr st1"
    and "matrixParseString P (Data y) = Inr axes"
    and "fileAxes axes = as1 @ axis # as2"
    and "buildAxes P b y as1 st1 = Inr (items, pid)"
    and "buildAxis P b y pid axis = Inl e"
  shows "buildYamls P b ys st0 = Inl e"
proof -
  have "buildAxes P b y (fileAxes axes) st1 = Inl e"
    using assms(4,5,6) by (simp add: buildAxes_append)
  then have "buildYamls P b (y # ys2) st1 = Inl e"
    using assms(3) by simp
  then show ?thesis
    using assms(1,2) by (simp add: buildYamls_append)
qed

lemma pass_appends:
  assumes "ys = ys1 @ y # ys2"
    and "buildYamls P b ys1 st0 = Inr st1"
    and "matrixParseString P (Data y) = Inr axes"
    and "fileAxes axes = as1 @ axis # as2"
    and "buildAxes P b y as1 st1 = Inr (items, pid)"
    and "buildAxis P b y pid axis = Inr (Some item)"
    and "buildYamls P b ys st0 = Inr st'"
  shows "prefix (items @ [item]) (fst st')"
proof -
  have a: "buildAxes P b y (fileAxes axes) st1 = buildAxes P b y as2 (items @ [item], pid + 1)"
    using assms(4,5,6) by (simp add: buildAxes_append)
  have "buildYamls P b ys st0 = buildYamls P b (y # ys2) st1"
    using assms(1,2) by (simp add: buildYamls_append)
  then have r: "buildYamls P b (y # ys2) st1 = Inr st'" using assms(7) by simp
  then obtain st2 where s2: "buildAxes P b y as2 (items @ [item], pid + 1) = Inr st2"
    and s3: "buildYamls P b ys2 st2 = Inr st'"
    using assms(3) a by (auto split: sum.splits)
  have "prefix (items @ [item]) (fst st2)" using buildAxes_prefix [OF s2] by simp
  moreover have "prefix (fst st2) (fst st')" using buildYamls_prefix [OF s3] .
  ultimately show ?thesis by (rule prefix_order.trans)
qed

lemma compileItems_fails:
  "buildYamls P b (SortByName P (Yamls b)) ([], 1) = Inl e \<Longrightarrow> Build P b = Inl e"
  by (simp add: Build_def compileItems_def)

text \<open>The passes of the inner loop, when the earlier stages succeed.\<close>

lemma buildAxis_lint:
  assumes "EnvVarSubst P (Data y) (substEnviron P b y pid axis) = Inr substituted"
    and "yamlParseString P substituted = Inr parsed"
    and "Lint P (IsTrusted (Repo b)) parsed = Some err"
  shows "buildAxis P b y pid axis = Inl (PipelineParseError err)"
  using assms by (simp add: buildAxis_def)

lemma buildAxis_parse:
  assumes "EnvVarSubst P (Data y) (substEnviron P b y pid axis) = Inr substituted"
    and "yamlParseString P substituted = Inl err"
  shows "buildAxis P b y pid axis = Inl (PipelineParseError err)"
  using assms by (simp add: buildAxis_def)

lemma buildAxis_when_error:
  assumes "EnvVarSubst P (Data y) (substEnviron P b y pid axis) = Inr substituted"
    and "yamlParseString P substituted = Inr parsed"
    and "Lint P (IsTrusted (Repo b)) parsed = None"
    and "When parsed (workflowMetadata b y pid axis) True = (m, Some err)"
  shows "buildAxis P b y pid axis = Inl (Collaborator err)"
  using assms by (simp add: buildAxis_def)

lemma buildAxis_skipped:
  assumes "EnvVarSubst P (Data y) (substEnviron P b y pid axis) = Inr substituted"
    and "yamlParseString P substituted = Inr parsed"
    and "Lint P (IsTrusted (Repo b)) parsed = None"
    and "When parsed (workflowMetadata b y pid axis) True = (False, None)"
    and "toInternalRepresentation P b parsed (substEnviron P b y pid axis)
           (workflowMetadata b y pid axis) 0 = Inr ir"
  shows "buildAxis P b y pid axis =
     (if length (Stages ir) = 0 then Inr None
      else Inr (Some (newItem ((newWorkflow b y pid axis)\<lparr>wfState := StatusSkipped\<rparr>) parsed ir)))"
  using assms by (simp add: buildAxis_def lowerWorkflow_def newWorkflow_def)

lemma summary_Inr:
  "summary r = Inr l \<Longrightarrow>
     \<exists>items. r = Inr items \<and>
       map (\<lambda>item. (wfName (Workflow item), wfPID (Workflow item), wfState (Workflow item))) items = l"
  by (auto simp: summary_def split: sum.splits)

lemma summary_Inl: "summary r = Inl e \<Longrightarrow> r = Inl e"
  by (auto simp: summary_def split: sum.splits)

subsection \<open>Counting\<close>

lemma matrixCardinality_fileAxes:
  "matrixParseString P (Data y) = Inr axes \<Longrightarrow> matrixCardinality P y = length (fileAxes axes)"
  by (simp add: matrixCardinality_def fileAxes_def)

lemma buildAxis_None_iff:
  "buildAxis P b y pid axis = Inr None \<longleftrightarrow>
     (\<exists>substituted parsed m ir.
        EnvVarSubst P (Data y) (substEnviron P b y pid axis) = Inr substituted \<and>
        yamlParseString P substituted = Inr parsed \<and>
        Lint P (IsTrusted (Repo b)) parsed = None \<and>
        When parsed (workflowMetadata b y pid axis) True = (m, None) \<and>
        toInternalRepresentation P b parsed (substEnviron P b y pid axis)
          (workflowMetadata b y pid axis) 0 = Inr ir \<and>
        Stages ir = [])"
  by (auto simp: buildAxis_def Let_def lowerWorkflow_def newWorkflow_def
      split: sum.splits option.splits prod.splits if_splits)

lemma buildAxes_count_run:
  "buildAxes P b y axes st = Inr st' \<Longrightarrow>
     length (fst st') + droppedAxes P b y axes st = length (fst st) + length axes"
proof (induction axes arbitrary: st)
  case Nil
  then show ?case by simp
next
  case (Cons axis axes)
  obtain items pid where st: "st = (items, pid)" by (cases st)
  show ?case
  proof (cases "buildAxis P b y pid axis")
    case (Inl e)
    then show ?thesis using Cons.prems st by simp
  next
    case (Inr r)
    show ?thesis
    proof (cases r)
      case None
      then have "buildAxes P b y axes (items, pid) = Inr st'"
        using Cons.prems Inr st by simp
      from Cons.IH [OF this] Inr None st show ?thesis by simp
    next
      case (Some item)
      then have "buildAxes P b y axes (items @ [item], pid + 1) = Inr st'"
        using Cons.prems Inr st by simp
      from Cons.IH [OF this] Inr Some st show ?thesis by simp
    qed
  qed
qed

lemma buildYamls_count_run:
  "buildYamls P b ys st = Inr st' \<Longrightarrow>
     length (fst st') + droppedYamls P b ys st = length (fst st) + totalExpansions P ys"
proof (induction ys arbitrary: st)
  case Nil
  then show ?case by (simp add: totalExpansions_def)
next
  case (Cons y ys)
  from Cons.prems obtain axes st1 where m: "matrixParseString P (Data y) = Inr axes"
    and a: "buildAxes P b y (fileAxes axes) st = Inr st1"
    and r: "buildYamls P b ys st1 = Inr st'"
    by (auto split: sum.splits)
  have t: "totalExpansions P (y # ys) = length (fileAxes axes) + totalExpansions P ys"
    using m by (simp add: totalExpansions_def matrixCardinality_fileAxes)
  have d: "droppedYamls P b (y # ys) st =
      droppedAxes P b y (fileAxes axes) st + droppedYamls P b ys st1"
    using m a by simp
  from buildAxes_count_run [OF a] Cons.IH [OF r] t d show ?case by linarith
qed

lemma totalExpansions_mset:
  "mset ys = mset ys' \<Longrightarrow> totalExpansions P ys = totalExpansions P ys'"
proof -
  assume "mset ys = mset ys'"
  then have "mset (map (matrixCardinality P) ys) = mset (map (matrixCardinality P) ys')"
    by simp
  then have "sum_mset (mset (map (matrixCardinality P) ys)) =
      sum_mset (mset (map (matrixCardinality P) ys'))" by simp
  then show ?thesis unfolding totalExpansions_def sum_mset_sum_list .
qed

subsection \<open>The compiler of a pass\<close>

lemma secretsLoop_eq:
  "secretsLoop P event secs acc =
     acc @ map compilerSecretOf (filter (\<lambda>sec. secretMatch P sec event) secs)"
  by (induction secs arbitrary: acc) simp_all

lemmas option_defs = WithEnviron_def WithEscalated_def WithResourceLimit_def WithVolumes_def
  WithNetworks_def WithLocal_def WithNetrc_def WithOption_def WithDefaultCloneImage_def
  WithRegistry_def WithSecret_def WithPrefix_def WithProxy_def WithWorkspaceFromURL_def
  WithMetadata_def WithTrusted_def WithNetrcOnlyTrusted_def

lemma cSecrets_newCompiler:
  "cSecrets (newCompiler P b environ md stepID) = secretsLoop P (Event (Curr b)) (Secs b) []"
  by (simp add: newCompiler_def New_def Let_def option_defs)

lemma cEnv_newCompiler:
  "cEnv (newCompiler P b environ md stepID) = addGlobalEnviron environ (Envs b)"
  by (simp add: newCompiler_def New_def Let_def option_defs emptyCompiler_def
      addGlobalEnviron_def)

subsection \<open>Evaluation of the small instance\<close>

lemmas demo_defs = demoBuilder_def demoCollab_def demoFile_def buildAxis_def
  fileAxes_def lowerWorkflow_def toInternalRepresentation_def demoCompile_def demoParsed_def
  newItem_def newWorkflow_def workflowMetadata_def MetadataFromStruct_def substEnviron_def

lemma SanitizePath_demo: "SanitizePath ''a.yml'' = ''a''" "SanitizePath ''b.yml'' = ''b''"
  by code_simp+

section \<open>The claims about Build\<close>

text \<open>
  Claim C1: the secrets that \<^verbatim>\<open>toInternalRepresentation\<close> passes into the compiler are
  exactly those of \<^verbatim>\<open>b.Secs\<close> whose \<^verbatim>\<open>Match\<close> accepts the current event, in order, so a
  secret whose event allow-list does not match never reaches the compiler; and every
  secret that a step receives from that compiler comes from a secret of \<^verbatim>\<open>b.Secs\<close> that
  matches the event, whose image allow-list admits the step's image, and that is
  plugin-only only if the step declares no commands.
\<close>

theorem C1_secret_scoping:
  "cSecrets (newCompiler P b environ md stepID) =
     map compilerSecretOf (filter (\<lambda>sec. secretMatch P sec (Event (Curr b))) (Secs b)) \<and>
   (\<forall>secret\<in>set (stepSecrets P (newCompiler P b environ md stepID) step).
      \<exists>sec\<in>set (Secs b). secret = compilerSecretOf sec \<and>
        secretMatch P sec (Event (Curr b)) \<and>
        imageAdmits P (Images sec) (stImage step) \<and>
        (PluginsOnly sec \<longrightarrow> stCommands step = []))"
proof -
  have s: "cSecrets (newCompiler P b environ md stepID) =
     map compilerSecretOf (filter (\<lambda>sec. secretMatch P sec (Event (Curr b))) (Secs b))"
    by (simp add: cSecrets_newCompiler secretsLoop_eq)
  show ?thesis
  proof (intro conjI ballI)
    show "cSecrets (newCompiler P b environ md stepID) =
     map compilerSecretOf (filter (\<lambda>sec. secretMatch P sec (Event (Curr b))) (Secs b))"
      by (rule s)
  next
    fix secret
    assume "secret \<in> set (stepSecrets P (newCompiler P b environ md stepID) step)"
    then have m: "secret \<in> set (map compilerSecretOf
          (filter (\<lambda>sec. secretMatch P sec (Event (Curr b))) (Secs b)))"
      and i: "imageAdmits P (csMatch secret) (stImage step)"
      and p: "csPluginOnly secret \<longrightarrow> stCommands step = []"
      by (auto simp: stepSecrets_def s split: if_splits)
    from m obtain sec where "sec \<in> set (Secs b)" "secretMatch P sec (Event (Curr b))"
      "secret = compilerSecretOf sec" by auto
    then show "\<exists>sec\<in>set (Secs b). secret = compilerSecretOf sec \<and>
        secretMatch P sec (Event (Curr b)) \<and>
        imageAdmits P (Images sec) (stImage step) \<and>
        (PluginsOnly sec \<longrightarrow> stCommands step = [])"
      using i p by (auto simp: compilerSecretOf_def)
  qed
qed

text \<open>Claim C1 at the event \<open>push\<close>: \<open>DEPLOY\<close> (tag only) is not passed on; of \<open>TOKEN\<close>
  (plugin-only, one image) and \<open>KEY\<close>, a step of image \<open>alpine\<close> with a command receives
  \<open>KEY\<close>.\<close>

theorem C1_secret_scoping_witness:
  "cSecrets (newCompiler demoCollab (demoBuilder []) Map.empty
      (workflowMetadata (demoBuilder []) (demoFile ''a.yml'' []) 1 Map.empty) 0) =
     [compilerSecretOf demoToken, compilerSecretOf demoKey] \<and>
   compilerSecretOf demoKey \<in> set (stepSecrets demoCollab
      (newCompiler demoCollab (demoBuilder []) Map.empty
         (workflowMetadata (demoBuilder []) (demoFile ''a.yml'' []) 1 Map.empty) 0)
      \<lparr>stImage = ''alpine'', stCommands = [''echo hi'']\<rparr>) \<and>
   (\<exists>sec\<in>set (Secs (demoBuilder [])).
      compilerSecretOf demoKey = compilerSecretOf sec \<and>
      secretMatch demoCollab sec (Event (Curr (demoBuilder []))) \<and>
      imageAdmits demoCollab (Images sec) ''alpine'')"
proof -
  let ?c = "newCompiler demoCollab (demoBuilder []) Map.empty
      (workflowMetadata (demoBuilder []) (demoFile ''a.yml'' []) 1 Map.empty) 0"
  let ?step = "\<lparr>stImage = ''alpine'', stCommands = [''echo hi'']\<rparr>"
  note th = C1_secret_scoping [of demoCollab "demoBuilder []" Map.empty
      "workflowMetadata (demoBuilder []) (demoFile ''a.yml'' []) 1 Map.empty" 0 ?step]
  have f: "map compilerSecretOf
      (filter (\<lambda>sec. secretMatch demoCollab sec (Event (Curr (demoBuilder []))))
         (Secs (demoBuilder []))) = [compilerSecretOf demoToken, compilerSecretOf demoKey]"
    by (simp add: demoBuilder_def demoCollab_def demoToken_def demoDeploy_def demoKey_def)
  have 1: "cSecrets ?c = [compilerSecretOf demoToken, compilerSecretOf demoKey]"
    using th f by simp
  have 2: "compilerSecretOf demoKey \<in> set (stepSecrets demoCollab ?c ?step)"
    unfolding stepSecrets_def 1
    by (simp add: compilerSecretOf_def demoKey_def demoToken_def demoCollab_def)
  from th 2 have "\<exists>sec\<in>set (Secs (demoBuilder [])).
      compilerSecretOf demoKey = compilerSecretOf sec \<and>
      secretMatch demoCollab sec (Event (Curr (demoBuilder []))) \<and>
      imageAdmits demoCollab (Images sec) (stImage ?step) \<and>
      (PluginsOnly sec \<longrightarrow> stCommands ?step = [])"
    by blast
  then show ?thesis using 1 2 by auto
qed

text \<open>
  Claim C2, as stated: the PIDs of the items \<^verbatim>\<open>Build\<close> returns are dense from 1. The
  PIDs are assigned before the dependencies are reconciled: here \<open>a\<close> gets PID 1 and is
  removed for its missing dependency, so the one item returned has PID 2.
\<close>

theorem C2_pids_gap:
  "summary (Build demoCollab (demoBuilder [demoFile ''a.yml'' ''D'', demoFile ''b.yml'' []])) =
     Inr [(''b'', 2, StatusPending)]"
  by code_simp

text \<open>
  Claim C2, amended: the items compiled by the two loops, in the order of the files and
  of the axes, carry the PIDs \<open>1, \<dots>, n\<close>; the items \<^verbatim>\<open>Build\<close> returns are those that
  survive the reconciliation, so their PIDs are a subsequence of \<open>1, \<dots>, n\<close>: strictly
  increasing and positive, with a gap wherever an item was removed.
\<close>

theorem C2_pids:
  "(compileItems P b = Inr items0 \<longrightarrow>
      map (\<lambda>item. wfPID (Workflow item)) items0 = [1..int (length items0)]) \<and>
   (Build P b = Inr items \<longrightarrow>
      (\<exists>items0. compileItems P b = Inr items0 \<and>
         items = filterItemsWithMissingDependencies items0 \<and>
         subseq (map (\<lambda>item. wfPID (Workflow item)) items) [1..int (length items0)]) \<and>
      sorted_wrt (<) (map (\<lambda>item. wfPID (Workflow item)) items) \<and>
      (\<forall>item\<in>set items. 1 \<le> wfPID (Workflow item)))"
proof (intro conjI impI)
  assume "compileItems P b = Inr items0"
  then show "map (\<lambda>item. wfPID (Workflow item)) items0 = [1..int (length items0)]"
    by (rule compileItems_dense)
next
  assume B: "Build P b = Inr items"
  then obtain items0 where c: "compileItems P b = Inr items0"
    and f: "items = filterItemsWithMissingDependencies items0"
    by (auto simp: Build_cases)
  have d: "map (\<lambda>item. wfPID (Workflow item)) items0 = [1..int (length items0)]"
    using c by (rule compileItems_dense)
  have "subseq items items0" using f filter_subseq by simp
  then have "subseq (map (\<lambda>item. wfPID (Workflow item)) items)
      (map (\<lambda>item. wfPID (Workflow item)) items0)"
    by (rule subseq_map)
  then have s: "subseq (map (\<lambda>item. wfPID (Workflow item)) items) [1..int (length items0)]"
    using d by simp
  show "\<exists>items0. compileItems P b = Inr items0 \<and>
         items = filterItemsWithMissingDependencies items0 \<and>
         subseq (map (\<lambda>item. wfPID (Workflow item)) items) [1..int (length items0)]"
    using c f s by blast
  show "sorted_wrt (<) (map (\<lambda>item. wfPID (Workflow item)) items)"
    using s sorted_wrt_subseq sorted_wrt_upto by blast
  show "\<forall>item\<in>set items. 1 \<le> wfPID (Workflow item)"
  proof
    fix item assume "item \<in> set items"
    then have "wfPID (Workflow item) \<in> set (map (\<lambda>item. wfPID (Workflow item)) items)" by simp
    from list_emb_set [OF s this] show "1 \<le> wfPID (Workflow item)" by auto
  qed
qed

text \<open>Claim C2 at the same two files: the compiled PIDs are 1 and 2, the returned PID is 2.\<close>

theorem C2_pids_witness:
  "\<exists>items items0.
     Build demoCollab (demoBuilder [demoFile ''a.yml'' ''D'', demoFile ''b.yml'' []]) = Inr items \<and>
     compileItems demoCollab (demoBuilder [demoFile ''a.yml'' ''D'', demoFile ''b.yml'' []])
       = Inr items0 \<and>
     map (\<lambda>item. wfPID (Workflow item)) items0 = [1, 2] \<and>
     map (\<lambda>item. wfPID (Workflow item)) items = [2] \<and>
     subseq (map (\<lambda>item. wfPID (Workflow item)) items) [1..int (length items0)] \<and>
     sorted_wrt (<) (map (\<lambda>item. wfPID (Workflow item)) items)"
proof -
  let ?b = "demoBuilder [demoFile ''a.yml'' ''D'', demoFile ''b.yml'' []]"
  have "summary (Build demoCollab ?b) = Inr [(''b'', 2, StatusPending)]" by code_simp
  from summary_Inr [OF this] obtain items where Bm: "Build demoCollab ?b = Inr items \<and>
      map (\<lambda>item. (wfName (Workflow item), wfPID (Workflow item), wfState (Workflow item)))
        items = [(''b'', 2, StatusPending)]" ..
  note B = conjunct1 [OF Bm] and m = conjunct2 [OF Bm]
  have p: "map (\<lambda>item. wfPID (Workflow item)) items = [2]" using m by auto
  have "(\<exists>items0. compileItems demoCollab ?b = Inr items0 \<and>
         items = filterItemsWithMissingDependencies items0 \<and>
         subseq (map (\<lambda>item. wfPID (Workflow item)) items) [1..int (length items0)]) \<and>
      sorted_wrt (<) (map (\<lambda>item. wfPID (Workflow item)) items) \<and>
      (\<forall>item\<in>set items. 1 \<le> wfPID (Workflow item))"
    by (rule mp [OF conjunct2 [OF C2_pids] B])
  then obtain items0 where
    c: "compileItems demoCollab ?b = Inr items0"
    and s: "subseq (map (\<lambda>item. wfPID (Workflow item)) items) [1..int (length items0)]"
    and o: "sorted_wrt (<) (map (\<lambda>item. wfPID (Workflow item)) items)"
    by (elim conjE exE) (rule that)
  have "summary (compileItems demoCollab ?b) = Inr [(''a'', 1, StatusPending), (''b'', 2, StatusPending)]"
    by code_simp
  from summary_Inr [OF this] have d: "map (\<lambda>item. wfPID (Workflow item)) items0 = [1, 2]"
    unfolding c by auto
  show ?thesis
    by (intro exI conjI) (rule B c d p s o)+
qed

text \<open>
  Claim C3, as stated: a workflow whose when-filter misses is retained in the output,
  with a possibly empty plan. Here the filter of \<open>a\<close> misses without error and its plan
  has no stage: \<^verbatim>\<open>Build\<close> succeeds and returns \<open>b\<close> alone.
\<close>

theorem C3_skipped_empty_plan_dropped:
  "When (demoParsed ''SE'')
     (workflowMetadata (demoBuilder [demoFile ''a.yml'' ''SE'', demoFile ''b.yml'' []])
        (demoFile ''a.yml'' ''SE'') 1 Map.empty) True = (False, None) \<and>
   summary (Build demoCollab (demoBuilder [demoFile ''a.yml'' ''SE'', demoFile ''b.yml'' []])) =
     Inr [(''b'', 1, StatusPending)]"
  by code_simp

text \<open>
  Claim C3, amended. For a pass of the inner loop that is reached (the files and the axes
  before it are built without error) and whose text substitutes, parses and lints: if
  the when-filter misses without error, the workflow is built in the skipped state; it
  is dropped when its plan has no stage, and otherwise it is appended to the item list,
  at its place in the list that goes to the reconciler. If the when-filter returns an
  error, \<^verbatim>\<open>Build\<close> fails with that error.
\<close>

theorem C3_skipped_workflows:
  assumes "SortByName P (Yamls b) = ys1 @ y # ys2"
    and "buildYamls P b ys1 ([], 1) = Inr st1"
    and "matrixParseString P (Data y) = Inr axes"
    and "fileAxes axes = as1 @ axis # as2"
    and "buildAxes P b y as1 st1 = Inr (items, pid)"
    and "EnvVarSubst P (Data y) (substEnviron P b y pid axis) = Inr substituted"
    and "yamlParseString P substituted = Inr parsed"
    and "Lint P (IsTrusted (Repo b)) parsed = None"
  shows "(When parsed (workflowMetadata b y pid axis) True = (False, None) \<and>
          toInternalRepresentation P b parsed (substEnviron P b y pid axis)
            (workflowMetadata b y pid axis) 0 = Inr ir \<longrightarrow>
            (Stages ir = [] \<longrightarrow> buildAxis P b y pid axis = Inr None) \<and>
            (Stages ir \<noteq> [] \<longrightarrow>
               buildAxis P b y pid axis =
                 Inr (Some (newItem ((newWorkflow b y pid axis)\<lparr>wfState := StatusSkipped\<rparr>)
                              parsed ir)) \<and>
               (\<forall>items0. compileItems P b = Inr items0 \<longrightarrow>
                  prefix (items @ [newItem ((newWorkflow b y pid axis)\<lparr>wfState := StatusSkipped\<rparr>)
                                     parsed ir]) items0))) \<and>
         (When parsed (workflowMetadata b y pid axis) True = (m, Some err) \<longrightarrow>
            Build P b = Inl (Collaborator err))"
proof (intro conjI impI allI)
  assume a: "When parsed (workflowMetadata b y pid axis) True = (False, None) \<and>
          toInternalRepresentation P b parsed (substEnviron P b y pid axis)
            (workflowMetadata b y pid axis) 0 = Inr ir"
  note s = buildAxis_skipped [OF assms(6-8) conjunct1 [OF a] conjunct2 [OF a]]
  {
    assume "Stages ir = []"
    then show "buildAxis P b y pid axis = Inr None" using s by simp
  }
  {
    assume ne: "Stages ir \<noteq> []"
    then show i: "buildAxis P b y pid axis =
        Inr (Some (newItem ((newWorkflow b y pid axis)\<lparr>wfState := StatusSkipped\<rparr>) parsed ir))"
      using s by simp
    fix items0
    assume "compileItems P b = Inr items0"
    then obtain pid' where
      "buildYamls P b (SortByName P (Yamls b)) ([], 1) = Inr (items0, pid')"
      by (auto simp: compileItems_def split: sum.splits prod.splits)
    from pass_appends [OF assms(1-5) i this]
    show "prefix (items @ [newItem ((newWorkflow b y pid axis)\<lparr>wfState := StatusSkipped\<rparr>)
                                     parsed ir]) items0"
      by simp
  }
next
  assume "When parsed (workflowMetadata b y pid axis) True = (m, Some err)"
  then have "buildAxis P b y pid axis = Inl (Collaborator err)"
    using assms(6-8) buildAxis_when_error by blast
  then show "Build P b = Inl (Collaborator err)"
    using pass_fails [OF assms(1-5)] compileItems_fails by blast
qed

text \<open>Claim C3 at a pending workflow \<open>a\<close> followed by \<open>b\<close>, whose filter misses (the
  item of \<open>b\<close> is appended, skipped) or fails (\<^verbatim>\<open>Build\<close> fails).\<close>

theorem C3_skipped_workflows_witness:
  "wfState (Workflow (newItem
      ((newWorkflow (demoBuilder [demoFile ''a.yml'' [], demoFile ''b.yml'' ''S''])
          (demoFile ''b.yml'' ''S'') 2 Map.empty)\<lparr>wfState := StatusSkipped\<rparr>)
      (demoParsed ''S'') demoPlan)) = StatusSkipped \<and>
   buildAxis demoCollab (demoBuilder [demoFile ''a.yml'' [], demoFile ''b.yml'' ''S''])
      (demoFile ''b.yml'' ''S'') 2 Map.empty =
     Inr (Some (newItem
      ((newWorkflow (demoBuilder [demoFile ''a.yml'' [], demoFile ''b.yml'' ''S''])
          (demoFile ''b.yml'' ''S'') 2 Map.empty)\<lparr>wfState := StatusSkipped\<rparr>)
      (demoParsed ''S'') demoPlan)) \<and>
   (\<exists>items0.
      compileItems demoCollab (demoBuilder [demoFile ''a.yml'' [], demoFile ''b.yml'' ''S''])
        = Inr items0 \<and>
      prefix ([demoPending ''a'' 1 []] @ [newItem
         ((newWorkflow (demoBuilder [demoFile ''a.yml'' [], demoFile ''b.yml'' ''S''])
            (demoFile ''b.yml'' ''S'') 2 Map.empty)\<lparr>wfState := StatusSkipped\<rparr>)
         (demoParsed ''S'') demoPlan]) items0) \<and>
   Build demoCollab (demoBuilder [demoFile ''a.yml'' [], demoFile ''b.yml'' ''W''])
     = Inl (Collaborator ''when'')"
proof -
  let ?b = "demoBuilder [demoFile ''a.yml'' [], demoFile ''b.yml'' ''S'']"
  let ?y = "demoFile ''b.yml'' ''S''"
  let ?md = "workflowMetadata ?b ?y 2 Map.empty"
  let ?item = "newItem ((newWorkflow ?b ?y 2 Map.empty)\<lparr>wfState := StatusSkipped\<rparr>)
      (demoParsed ''S'') demoPlan"
  have 1: "SortByName demoCollab (Yamls ?b) = [demoFile ''a.yml'' []] @ ?y # []"
    by (simp add: demoCollab_def demoBuilder_def)
  have 2: "buildYamls demoCollab ?b [demoFile ''a.yml'' []] ([], 1) =
      Inr ([demoPending ''a'' 1 []], 2)"
    by (simp add: demo_defs demoPending_def SanitizePath_demo)
  have 3: "matrixParseString demoCollab (Data ?y) = Inr []"
    by (simp add: demoCollab_def demoFile_def)
  have 4: "fileAxes [] = [] @ Map.empty # []" by (simp add: fileAxes_def)
  have 5: "buildAxes demoCollab ?b ?y [] ([demoPending ''a'' 1 []], 2) =
      Inr ([demoPending ''a'' 1 []], 2)"
    by simp
  have 6: "EnvVarSubst demoCollab (Data ?y) (substEnviron demoCollab ?b ?y 2 Map.empty) = Inr ''S''"
    by (simp add: demoCollab_def demoFile_def)
  have 7: "yamlParseString demoCollab ''S'' = Inr (demoParsed ''S'')"
    by (simp add: demoCollab_def)
  have 8: "Lint demoCollab (IsTrusted (Repo ?b)) (demoParsed ''S'') = None"
    by (simp add: demoCollab_def demoParsed_def)
  have 9: "When (demoParsed ''S'') ?md True = (False, None) \<and>
      toInternalRepresentation demoCollab ?b (demoParsed ''S'')
        (substEnviron demoCollab ?b ?y 2 Map.empty) ?md 0 = Inr demoPlan"
    by (simp add: demoParsed_def toInternalRepresentation_def demoCollab_def demoCompile_def
        demoPlan_def)
  have ne: "Stages demoPlan \<noteq> []" by (simp add: demoPlan_def)
  note th = C3_skipped_workflows [OF 1 2 3 4 5 6 7 8, of demoPlan False "''when''"]
  from th 9 ne have a: "buildAxis demoCollab ?b ?y 2 Map.empty = Inr (Some ?item)"
    by simp
  from th 9 ne have p: "\<forall>items0. compileItems demoCollab ?b = Inr items0 \<longrightarrow>
      prefix ([demoPending ''a'' 1 []] @ [?item]) items0"
    by simp
  have "summary (compileItems demoCollab ?b) =
      Inr [(''a'', 1, StatusPending), (''b'', 2, StatusSkipped)]"
    by code_simp
  from summary_Inr [OF this] obtain items0 where "compileItems demoCollab ?b = Inr items0 \<and>
      map (\<lambda>item. (wfName (Workflow item), wfPID (Workflow item), wfState (Workflow item)))
        items0 = [(''a'', 1, StatusPending), (''b'', 2, StatusSkipped)]" ..
  then have c: "compileItems demoCollab ?b = Inr items0" ..
  have e: "\<exists>items0. compileItems demoCollab ?b = Inr items0 \<and>
      prefix ([demoPending ''a'' 1 []] @ [?item]) items0"
    using c p by (intro exI [of _ items0] conjI) auto
  have s: "wfState (Workflow ?item) = StatusSkipped" by (simp add: newItem_def)
  let ?bw = "demoBuilder [demoFile ''a.yml'' [], demoFile ''b.yml'' ''W'']"
  let ?yw = "demoFile ''b.yml'' ''W''"
  have w1: "SortByName demoCollab (Yamls ?bw) = [demoFile ''a.yml'' []] @ ?yw # []"
    by (simp add: demoCollab_def demoBuilder_def)
  have w2: "buildYamls demoCollab ?bw [demoFile ''a.yml'' []] ([], 1) =
      Inr ([demoPending ''a'' 1 []], 2)"
    by (simp add: demo_defs demoPending_def SanitizePath_demo)
  have w3: "matrixParseString demoCollab (Data ?yw) = Inr []"
    by (simp add: demoCollab_def demoFile_def)
  have w5: "buildAxes demoCollab ?bw ?yw [] ([demoPending ''a'' 1 []], 2) =
      Inr ([demoPending ''a'' 1 []], 2)"
    by simp
  have w6: "EnvVarSubst demoCollab (Data ?yw) (substEnviron demoCollab ?bw ?yw 2 Map.empty) = Inr ''W''"
    by (simp add: demoCollab_def demoFile_def)
  have w7: "yamlParseString demoCollab ''W'' = Inr (demoParsed ''W'')"
    by (simp add: demoCollab_def)
  have w8: "Lint demoCollab (IsTrusted (Repo ?bw)) (demoParsed ''W'') = None"
    by (simp add: demoCollab_def demoParsed_def)
  have w9: "When (demoParsed ''W'') (workflowMetadata ?bw ?yw 2 Map.empty) True =
      (False, Some ''when'')"
    by (simp add: demoParsed_def)
  note thw = C3_skipped_workflows [OF w1 w2 w3 4 w5 w6 w7 w8, of demoPlan False "''when''"]
  from thw w9 have f: "Build demoCollab ?bw = Inl (Collaborator ''when'')"
    by simp
  show ?thesis
    by (intro conjI) (rule s a e f)+
qed

text \<open>
  Claim C4: \<^verbatim>\<open>Build\<close> fails with the no-startpoint error if and only if the two loops
  succeed and the reconciled item list is not empty and holds no pending workflow; when
  the reconciled list is empty, \<^verbatim>\<open>Build\<close> returns it without error.
\<close>

theorem C4_no_startpoint:
  "(Build P b = Inl NoStartpoint \<longleftrightarrow>
      (\<exists>items0. compileItems P b = Inr items0 \<and>
         filterItemsWithMissingDependencies items0 \<noteq> [] \<and>
         (\<forall>item\<in>set (filterItemsWithMissingDependencies items0).
            wfState (Workflow item) \<noteq> StatusPending))) \<and>
   (compileItems P b = Inr items0 \<and> filterItemsWithMissingDependencies items0 = [] \<longrightarrow>
      Build P b = Inr [])"
proof (intro conjI impI iffI)
  assume "Build P b = Inl NoStartpoint"
  then show "\<exists>items0. compileItems P b = Inr items0 \<and>
         filterItemsWithMissingDependencies items0 \<noteq> [] \<and>
         (\<forall>item\<in>set (filterItemsWithMissingDependencies items0).
            wfState (Workflow item) \<noteq> StatusPending)"
    using compileItems_error [of P b NoStartpoint]
    by (auto simp: Build_def Let_def stepListContainsItemsToRun_iff split: sum.splits if_splits)
next
  assume "\<exists>items0. compileItems P b = Inr items0 \<and>
         filterItemsWithMissingDependencies items0 \<noteq> [] \<and>
         (\<forall>item\<in>set (filterItemsWithMissingDependencies items0).
            wfState (Workflow item) \<noteq> StatusPending)"
  then show "Build P b = Inl NoStartpoint"
    by (auto simp: Build_def Let_def stepListContainsItemsToRun_iff)
next
  assume "compileItems P b = Inr items0 \<and> filterItemsWithMissingDependencies items0 = []"
  then show "Build P b = Inr []"
    by (simp add: Build_def)
qed

text \<open>Claim C4 at a single skipped workflow (no startpoint) and at a single workflow
  with a missing dependency (the empty list is returned).\<close>

theorem C4_no_startpoint_witness:
  "Build demoCollab (demoBuilder [demoFile ''a.yml'' ''S'']) = Inl NoStartpoint \<and>
   (\<exists>items0. compileItems demoCollab (demoBuilder [demoFile ''a.yml'' ''S'']) = Inr items0 \<and>
      filterItemsWithMissingDependencies items0 \<noteq> []) \<and>
   compileItems demoCollab (demoBuilder [demoFile ''a.yml'' ''D'']) =
     Inr [demoPending ''a'' 1 [''missing'']] \<and>
   Build demoCollab (demoBuilder [demoFile ''a.yml'' ''D'']) = Inr []"
proof -
  have "summary (Build demoCollab (demoBuilder [demoFile ''a.yml'' ''S''])) = Inl NoStartpoint"
    by code_simp
  then have 1: "Build demoCollab (demoBuilder [demoFile ''a.yml'' ''S'']) = Inl NoStartpoint"
    by (rule summary_Inl)
  have 2: "compileItems demoCollab (demoBuilder [demoFile ''a.yml'' ''D'']) =
     Inr [demoPending ''a'' 1 [''missing'']]"
    by (simp add: compileItems_def demo_defs demoPending_def SanitizePath_demo)
  have "collectItemsToRemove [demoPending ''a'' 1 [''missing'']] [demoPending ''a'' 1 [''missing'']] []
      = [demoPending ''a'' 1 [''missing'']]"
    by (simp add: demoPending_def)
  then have 3: "filterItemsWithMissingDependencies [demoPending ''a'' 1 [''missing'']] = []"
    using filter_step [of "[demoPending ''a'' 1 [''missing'']]"] filter_fixed [of "[]"]
    by (simp add: demoPending_def)
  show ?thesis
    using C4_no_startpoint [of demoCollab "demoBuilder [demoFile ''a.yml'' ''S'']"] 1
      C4_no_startpoint [of demoCollab "demoBuilder [demoFile ''a.yml'' ''D'']"
        "[demoPending ''a'' 1 [''missing'']]"] 2 3
    by blast
qed

text \<open>
  Claim C6: a name that the environment of the metadata and the axis holds, and that the
  caller's global environment holds too, keeps the value of the metadata, in the
  environment of the substitution and in the environment of the compiler that
  \<^verbatim>\<open>toInternalRepresentation\<close> builds for the pass.
\<close>

theorem C6_metadata_precedence:
  assumes "environmentVariables P (workflowMetadata b y pid axis) axis K = Some Vm"
    and "Envs b K = Some Vg"
  shows "substEnviron P b y pid axis K = Some Vm \<and>
    cEnv (newCompiler P b (substEnviron P b y pid axis) (workflowMetadata b y pid axis) stepID) K
      = Some Vm"
  using assms by (simp add: cEnv_newCompiler substEnviron_def addGlobalEnviron_def)

text \<open>Claim C6 at \<open>CI_PIPELINE_EVENT\<close>, which the metadata sets to \<open>push\<close> and the
  global environment to \<open>fake\<close>.\<close>

theorem C6_metadata_precedence_witness:
  "Envs (demoBuilder []) ''CI_PIPELINE_EVENT'' = Some ''fake'' \<and>
   substEnviron demoCollab (demoBuilder []) (demoFile ''a.yml'' []) 1 Map.empty
     ''CI_PIPELINE_EVENT'' = Some ''push'' \<and>
   cEnv (newCompiler demoCollab (demoBuilder [])
           (substEnviron demoCollab (demoBuilder []) (demoFile ''a.yml'' []) 1 Map.empty)
           (workflowMetadata (demoBuilder []) (demoFile ''a.yml'' []) 1 Map.empty) 0)
     ''CI_PIPELINE_EVENT'' = Some ''push''"
proof -
  have 1: "environmentVariables demoCollab
      (workflowMetadata (demoBuilder []) (demoFile ''a.yml'' []) 1 Map.empty) Map.empty
      ''CI_PIPELINE_EVENT'' = Some ''push''"
    by (simp add: environmentVariables_def demoCollab_def workflowMetadata_def
        MetadataFromStruct_def demoBuilder_def)
  have 2: "Envs (demoBuilder []) ''CI_PIPELINE_EVENT'' = Some ''fake''"
    by (simp add: demoBuilder_def)
  show ?thesis
    using C6_metadata_precedence [OF 1 2, of 0] 2 by simp
qed

text \<open>
  Claim C7, as stated: the number of items equals the sum of the expansions of the
  files. Here the two files have three expansions, and the plan of the third has no
  stage: two items are returned.
\<close>

theorem C7_fewer_items:
  "totalExpansions demoCollab [demoFile ''a.yml'' ''M'', demoFile ''b.yml'' ''E''] = 3 \<and>
   summary (Build demoCollab (demoBuilder [demoFile ''a.yml'' ''M'', demoFile ''b.yml'' ''E''])) =
     Inr [(''a'', 1, StatusPending), (''a'', 2, StatusPending)]"
  by code_simp

text \<open>
  Claim C7, amended: when the loops succeed, the number of items they compile, plus the
  number of passes of the run whose plan has no stage, equals the sum over the files of
  the expansions (the size of the matrix, or 1); so the two numbers are equal exactly
  when no plan compiled in the run is empty. The items \<^verbatim>\<open>Build\<close> returns are the
  survivors of the reconciliation of the compiled items, so they are at most as many,
  and at most the sum. A pass is counted exactly when its text substitutes, parses and
  lints, its when-filter returns no error, and its plan has no stage. The sum is that of
  the files in any order, when sorting permutes them.
\<close>

theorem C7_item_count:
  "(compileItems P b = Inr items0 \<longrightarrow>
      length items0 + droppedPasses P b = totalExpansions P (SortByName P (Yamls b)) \<and>
      (length items0 = totalExpansions P (SortByName P (Yamls b)) \<longleftrightarrow>
         droppedPasses P b = 0)) \<and>
   (Build P b = Inr items \<longrightarrow>
      (\<exists>items1. compileItems P b = Inr items1 \<and>
         items = filterItemsWithMissingDependencies items1 \<and>
         length items \<le> length items1) \<and>
      length items \<le> totalExpansions P (SortByName P (Yamls b))) \<and>
   (mset (SortByName P (Yamls b)) = mset (Yamls b) \<longrightarrow>
      totalExpansions P (SortByName P (Yamls b)) = totalExpansions P (Yamls b)) \<and>
   (buildAxis P b y pid axis = Inr None \<longleftrightarrow>
      (\<exists>substituted parsed m ir.
         EnvVarSubst P (Data y) (substEnviron P b y pid axis) = Inr substituted \<and>
         yamlParseString P substituted = Inr parsed \<and>
         Lint P (IsTrusted (Repo b)) parsed = None \<and>
         When parsed (workflowMetadata b y pid axis) True = (m, None) \<and>
         toInternalRepresentation P b parsed (substEnviron P b y pid axis)
           (workflowMetadata b y pid axis) 0 = Inr ir \<and>
         Stages ir = []))"
proof -
  have c: "length items0 + droppedPasses P b = totalExpansions P (SortByName P (Yamls b))"
    if "compileItems P b = Inr items0" for items0
  proof -
    from that obtain pid where
      "buildYamls P b (SortByName P (Yamls b)) ([], 1) = Inr (items0, pid)"
      by (auto simp: compileItems_def split: sum.splits prod.splits)
    from buildYamls_count_run [OF this] show ?thesis by (simp add: droppedPasses_def)
  qed
  have B: "(\<exists>items1. compileItems P b = Inr items1 \<and>
         items = filterItemsWithMissingDependencies items1 \<and>
         length items \<le> length items1) \<and>
      length items \<le> totalExpansions P (SortByName P (Yamls b))"
    if "Build P b = Inr items"
  proof -
    from that obtain items1 where c1: "compileItems P b = Inr items1"
      and f: "items = filterItemsWithMissingDependencies items1"
      by (auto simp: Build_cases)
    have l: "length items \<le> length items1"
      using f filter_subseq [of items1] list_emb_length by blast
    moreover have "length items \<le> totalExpansions P (SortByName P (Yamls b))"
      using l c [OF c1] by linarith
    ultimately show ?thesis using c1 f by blast
  qed
  have 1: "compileItems P b = Inr items0 \<longrightarrow>
      length items0 + droppedPasses P b = totalExpansions P (SortByName P (Yamls b)) \<and>
      (length items0 = totalExpansions P (SortByName P (Yamls b)) \<longleftrightarrow>
         droppedPasses P b = 0)"
    using c [of items0] by auto
  have 2: "Build P b = Inr items \<longrightarrow>
      (\<exists>items1. compileItems P b = Inr items1 \<and>
         items = filterItemsWithMissingDependencies items1 \<and>
         length items \<le> length items1) \<and>
      length items \<le> totalExpansions P (SortByName P (Yamls b))"
    using B by (rule impI)
  have 3: "mset (SortByName P (Yamls b)) = mset (Yamls b) \<longrightarrow>
      totalExpansions P (SortByName P (Yamls b)) = totalExpansions P (Yamls b)"
    using totalExpansions_mset by (rule impI)
  show ?thesis
    by (intro conjI) (rule 1 2 3 buildAxis_None_iff)+
qed

text \<open>Claim C7 at the same files: three expansions, two items compiled and returned,
  one pass with an empty plan.\<close>

theorem C7_item_count_witness:
  "\<exists>items0 items.
     compileItems demoCollab (demoBuilder [demoFile ''a.yml'' ''M'', demoFile ''b.yml'' ''E''])
       = Inr items0 \<and>
     Build demoCollab (demoBuilder [demoFile ''a.yml'' ''M'', demoFile ''b.yml'' ''E''])
       = Inr items \<and>
     length items0 + 1 = 3 \<and> length items \<le> 3 \<and>
     droppedPasses demoCollab (demoBuilder [demoFile ''a.yml'' ''M'', demoFile ''b.yml'' ''E'']) = 1 \<and>
     totalExpansions demoCollab
       (Yamls (demoBuilder [demoFile ''a.yml'' ''M'', demoFile ''b.yml'' ''E''])) = 3"
proof -
  let ?b = "demoBuilder [demoFile ''a.yml'' ''M'', demoFile ''b.yml'' ''E'']"
  have "summary (Build demoCollab ?b) =
      Inr [(''a'', 1, StatusPending), (''a'', 2, StatusPending)]"
    by code_simp
  from summary_Inr [OF this] obtain items where "Build demoCollab ?b = Inr items \<and>
      map (\<lambda>item. (wfName (Workflow item), wfPID (Workflow item), wfState (Workflow item)))
        items = [(''a'', 1, StatusPending), (''a'', 2, StatusPending)]" ..
  then have B: "Build demoCollab ?b = Inr items" ..
  then obtain items0 where c: "compileItems demoCollab ?b = Inr items0"
    by (auto simp: Build_cases)
  have m: "mset (SortByName demoCollab (Yamls ?b)) = mset (Yamls ?b)"
    by (simp add: demoCollab_def)
  have d: "droppedPasses demoCollab ?b = 1" by code_simp
  have t: "totalExpansions demoCollab (Yamls ?b) = 3" by code_simp
  note th = C7_item_count [of demoCollab ?b items0 items]
  have e: "length items0 + droppedPasses demoCollab ?b =
      totalExpansions demoCollab (SortByName demoCollab (Yamls ?b))"
    using th c by simp
  have l: "length items \<le> totalExpansions demoCollab (SortByName demoCollab (Yamls ?b))"
    using th B by simp
  have s: "totalExpansions demoCollab (SortByName demoCollab (Yamls ?b)) =
      totalExpansions demoCollab (Yamls ?b)"
    using th m by simp
  have e': "length items0 + 1 = 3" using e d s t by simp
  have l': "length items \<le> 3" using l s t by simp
  show ?thesis
    by (intro exI conjI) (rule c B e' l' d t)+
qed

text \<open>
  Claim C8, as stated: a workflow that the linter rejects makes \<^verbatim>\<open>Build\<close> fail with an
  error of a kind of its own. The code wraps the linter's error in
  \<^verbatim>\<open>yaml.PipelineParseError\<close>, as it does for the parser's.
\<close>

theorem C8_lint_is_parse_error:
  "Lint demoCollab False (demoParsed ''L'') = Some ''lint'' \<and>
   summary (Build demoCollab (demoBuilder [demoFile ''a.yml'' ''L''])) =
     Inl (PipelineParseError ''lint'')"
  by code_simp

text \<open>
  Claim C8, amended: for a pass that is reached and whose text substitutes, \<^verbatim>\<open>Build\<close>
  fails with \<^verbatim>\<open>PipelineParseError\<close> around the linter's error when the linter rejects
  the parsed workflow, and with \<^verbatim>\<open>PipelineParseError\<close> around the parser's error when
  the text does not parse.
\<close>

theorem C8_lint_error_kind:
  assumes "SortByName P (Yamls b) = ys1 @ y # ys2"
    and "buildYamls P b ys1 ([], 1) = Inr st1"
    and "matrixParseString P (Data y) = Inr axes"
    and "fileAxes axes = as1 @ axis # as2"
    and "buildAxes P b y as1 st1 = Inr (items, pid)"
    and "EnvVarSubst P (Data y) (substEnviron P b y pid axis) = Inr substituted"
  shows "(yamlParseString P substituted = Inr parsed \<and>
          Lint P (IsTrusted (Repo b)) parsed = Some err \<longrightarrow>
            Build P b = Inl (PipelineParseError err)) \<and>
         (yamlParseString P substituted = Inl err \<longrightarrow>
            Build P b = Inl (PipelineParseError err))"
proof (intro conjI impI)
  assume "yamlParseString P substituted = Inr parsed \<and>
          Lint P (IsTrusted (Repo b)) parsed = Some err"
  then have "buildAxis P b y pid axis = Inl (PipelineParseError err)"
    using assms(6) buildAxis_lint by blast
  then show "Build P b = Inl (PipelineParseError err)"
    using pass_fails [OF assms(1-5)] compileItems_fails by blast
next
  assume "yamlParseString P substituted = Inl err"
  then have "buildAxis P b y pid axis = Inl (PipelineParseError err)"
    using assms(6) buildAxis_parse by blast
  then show "Build P b = Inl (PipelineParseError err)"
    using pass_fails [OF assms(1-5)] compileItems_fails by blast
qed

text \<open>Claim C8 at a matrix file followed by a file that the linter rejects.\<close>

theorem C8_lint_error_kind_witness:
  "Build demoCollab (demoBuilder [demoFile ''a.yml'' ''M'', demoFile ''b.yml'' ''L'']) =
     Inl (PipelineParseError ''lint'')"
proof -
  let ?b = "demoBuilder [demoFile ''a.yml'' ''M'', demoFile ''b.yml'' ''L'']"
  have n: "SanitizePath ''a.yml'' = ''a''" by code_simp
  have 1: "SortByName demoCollab (Yamls ?b) = [demoFile ''a.yml'' ''M''] @ demoFile ''b.yml'' ''L'' # []"
    by (simp add: demoCollab_def demoBuilder_def)
  have "\<exists>st1. buildYamls demoCollab ?b [demoFile ''a.yml'' ''M''] ([], 1) = Inr st1"
    by (simp add: demo_defs n)
  then obtain st1 where 2: "buildYamls demoCollab ?b [demoFile ''a.yml'' ''M''] ([], 1) = Inr st1"
    by blast
  have 3: "matrixParseString demoCollab (Data (demoFile ''b.yml'' ''L'')) = Inr []"
    by (simp add: demoCollab_def demoFile_def)
  have 4: "fileAxes [] = [] @ Map.empty # []" by (simp add: fileAxes_def)
  have 5: "buildAxes demoCollab ?b (demoFile ''b.yml'' ''L'') [] st1 = Inr (fst st1, snd st1)"
    by simp
  have 6: "EnvVarSubst demoCollab (Data (demoFile ''b.yml'' ''L''))
      (substEnviron demoCollab ?b (demoFile ''b.yml'' ''L'') (snd st1) Map.empty) = Inr ''L''"
    by (simp add: demoCollab_def demoFile_def)
  have 7: "yamlParseString demoCollab ''L'' = Inr (demoParsed ''L'') \<and>
      Lint demoCollab (IsTrusted (Repo ?b)) (demoParsed ''L'') = Some ''lint''"
    by (simp add: demoCollab_def demoParsed_def)
  show ?thesis
    using C8_lint_error_kind [OF 1 2 3 4 5 6, of "demoParsed ''L''" "''lint''"] 7 by blast
qed

end
